theory Spec2Isabelle
  imports Main "HOL-Library.Word"
begin

unbundle bit_operations_syntax

section \<open>Constants and records of common.h\<close>

definition INITIAL_QUEUE_CAPACITY :: nat where
  "INITIAL_QUEUE_CAPACITY = 10"

definition MIN_QUEUE_CAPACITY :: nat where
  "MIN_QUEUE_CAPACITY = 1"

definition MAX_QUEUE_CAPACITY :: nat where
  "MAX_QUEUE_CAPACITY = 100"

definition MAX_DATA_SIZE :: nat where
  "MAX_DATA_SIZE = 256"

datatype sync_mode_t = SYNC_MODE_SEM | SYNC_MODE_CONDVAR

text \<open>
  \<^verbatim>\<open>message_t\<close>: \<^verbatim>\<open>unsigned char type; unsigned short hash; unsigned char size;
  unsigned char data[MAX_DATA_SIZE]\<close>. The field \<^verbatim>\<open>size\<close> is called \<open>size_f\<close>
  here, the name \<open>size\<close> being taken in HOL. The array \<^verbatim>\<open>data\<close> is a list; a
  message as C lays it out has \<open>length (data m) = MAX_DATA_SIZE\<close>.
\<close>

record message_t =
  type :: "8 word"
  hash :: "16 word"
  size_f :: "8 word"
  data :: "8 word list"

section \<open>utils.c: the message hash\<close>

text \<open>
  One round of the hash, \<^verbatim>\<open>hash = (hash << 5) + hash + byte\<close>. The operands are
  promoted to \<^verbatim>\<open>int\<close>, where the sum cannot overflow (it is below \<open>2 ^ 22\<close>),
  and the assignment to \<^verbatim>\<open>unsigned short\<close> keeps the low 16 bits: this is the
  arithmetic of \<open>16 word\<close>.
\<close>

definition hash_round :: "16 word \<Rightarrow> 8 word \<Rightarrow> 16 word" where
  "hash_round h b = push_bit 5 h + h + ucast b"

text \<open>
  The loop \<^verbatim>\<open>for (i = 0; i < msg->size; ++i) hash = (hash << 5) + hash + byte_ptr[i]\<close>,
  with \<open>n\<close> the bound, \<open>i\<close> the counter and \<open>h\<close> the running hash.
\<close>

function hash_loop :: "8 word list \<Rightarrow> nat \<Rightarrow> nat \<Rightarrow> 16 word \<Rightarrow> 16 word" where
  "hash_loop byte_ptr n i h =
     (if i < n then hash_loop byte_ptr n (Suc i) (hash_round h (byte_ptr ! i)) else h)"
  by pat_completeness auto
termination
  by (relation "measure (\<lambda>(byte_ptr, n, i, h). n - i)") auto

declare hash_loop.simps [simp del]

definition calculate_message_hash :: "message_t \<Rightarrow> 16 word" where
  "calculate_message_hash msg =
     (let h = 0;
          h = hash_round h (type msg);
          h = hash_round h (size_f msg)
      in hash_loop (data msg) (unat (size_f msg)) 0 h)"

text \<open>
  The bytes the hash is folded over, as numbers: the type, the size, then the first
  \<open>size\<close> bytes of the payload.
\<close>

definition hashed_bytes :: "message_t \<Rightarrow> nat list" where
  "hashed_bytes msg =
     unat (type msg) # unat (size_f msg) # map unat (take (unat (size_f msg)) (data msg))"

text \<open>
  The rolling hash in the words of the specification, \<open>h' = h*33 + h + byte\<close>, seeded
  at 0 and truncated to 16 bits.
\<close>

definition spec_round :: "nat \<Rightarrow> nat \<Rightarrow> nat" where
  "spec_round h b = h * 33 + h + b"

definition spec_hash :: "message_t \<Rightarrow> 16 word" where
  "spec_hash msg = of_nat (foldl spec_round 0 (hashed_bytes msg))"

text \<open>The rolling hash \<open>h' = h*33 + byte\<close>, over the same bytes.\<close>

definition times33_round :: "nat \<Rightarrow> nat \<Rightarrow> nat" where
  "times33_round h b = h * 33 + b"

definition times33_hash :: "message_t \<Rightarrow> 16 word" where
  "times33_hash msg = of_nat (foldl times33_round 0 (hashed_bytes msg))"

section \<open>producer.c and consumer.c: making and checking a message\<close>

text \<open>
  The loop \<^verbatim>\<open>for (int i = 0; i < msg.size; ++i) msg.data[i] = rand_r(&seed) % 256\<close>;
  \<open>rnd i\<close> is the byte drawn for index \<open>i\<close>.
\<close>

function fill_data :: "(nat \<Rightarrow> 8 word) \<Rightarrow> 8 word list \<Rightarrow> nat \<Rightarrow> nat \<Rightarrow> 8 word list" where
  "fill_data rnd d n i = (if i < n then fill_data rnd (d[i := rnd i]) n (Suc i) else d)"
  by pat_completeness auto
termination
  by (relation "measure (\<lambda>(rnd, d, n, i). n - i)") auto

declare fill_data.simps [simp del]

text \<open>
  The message a producer builds in one turn of its loop. \<open>raw\<close> is the uninitialised
  \<^verbatim>\<open>message_t msg\<close> on the stack; \<open>t\<close>, \<open>s\<close> and \<open>rnd\<close> are the random draws.
  The payload bytes from index \<open>s\<close> on stay what \<open>raw\<close> held.
\<close>

definition producer_message :: "message_t \<Rightarrow> 8 word \<Rightarrow> 8 word \<Rightarrow> (nat \<Rightarrow> 8 word) \<Rightarrow> message_t" where
  "producer_message raw t s rnd =
     (let msg = raw\<lparr>type := t\<rparr>;
          msg = msg\<lparr>size_f := s\<rparr>;
          msg = msg\<lparr>data := fill_data rnd (data msg) (unat (size_f msg)) 0\<rparr>;
          msg = msg\<lparr>hash := 0\<rparr>
      in msg\<lparr>hash := calculate_message_hash msg\<rparr>)"

text \<open>
  The consumer's check of a message it took from the queue: \<^verbatim>\<open>original_hash = msg.hash;
  msg.hash = 0; calculated_hash = calculate_message_hash(&msg); hash_ok = (original_hash ==
  calculated_hash)\<close>.
\<close>

definition consumer_hash_ok :: "message_t \<Rightarrow> bool" where
  "consumer_hash_ok msg =
     (let original_hash = hash msg;
          msg = msg\<lparr>hash := 0\<rparr>;
          calculated_hash = calculate_message_hash msg
      in original_hash = calculated_hash)"

section \<open>queue_manager.c: the queue and its environment\<close>

text \<open>
  \<^verbatim>\<open>queue_t\<close>. The ring buffer \<^verbatim>\<open>messages\<close> is a list of \<open>capacity\<close> slots.
  \<^verbatim>\<open>count\<close> and \<^verbatim>\<open>capacity\<close> are \<^verbatim>\<open>size_t\<close> and stay below 101, the two
  indices are \<^verbatim>\<open>int\<close> and are only ever set to 0, to \<^verbatim>\<open>count\<close> or to a remainder
  modulo \<^verbatim>\<open>capacity\<close>: all four are natural numbers here. The two totals are
  \<^verbatim>\<open>unsigned long\<close> and wrap around at \<open>2 ^ 64\<close>. The two semaphores are their
  values. The mutex and the two condition variables hold no data: locking and unlocking
  a mutex always succeeds in this model (the code leaves the process otherwise), and
  \<^verbatim>\<open>sem_post\<close>, signal and broadcast do not fail.
\<close>

record 'm queue_t =
  messages :: "'m list"
  capacity :: nat
  count :: nat
  head_idx :: nat
  tail_idx :: nat
  empty_slots :: nat
  full_slots :: nat
  added_count_total :: "64 word"
  extracted_count_total :: "64 word"

text \<open>
  How a call ends. The C functions return 0 or -1; the model names the \<^verbatim>\<open>return\<close>
  statement taken: \<open>Ok\<close> is \<^verbatim>\<open>return 0\<close>, \<open>Cancelled\<close> a return taken because
  \<^verbatim>\<open>g_terminate_flag\<close> was read as set, \<open>Rejected\<close> the refusal of a shrink below the
  item count, \<open>Invalid\<close> the first guard on the arguments, \<open>Fault\<close> any other
  \<^verbatim>\<open>return -1\<close>. \<open>Waiting\<close> is no return at all: the thread is still parked in a wait
  when the script of events ends.
\<close>

datatype status = Ok | Cancelled | Rejected | Invalid | Fault | Waiting

fun ret_code :: "status \<Rightarrow> int option" where
  "ret_code Ok = Some 0"
| "ret_code Waiting = None"
| "ret_code Cancelled = Some (- 1)"
| "ret_code Rejected = Some (- 1)"
| "ret_code Invalid = Some (- 1)"
| "ret_code Fault = Some (- 1)"

text \<open>
  What happens to one call of \<^verbatim>\<open>sem_wait\<close>: \<open>Quiet\<close>, neither signal nor error, so
  the call takes a permit when the semaphore is positive and the thread stays blocked
  when it is 0; \<open>Eintr\<close>, the call returns -1 with \<^verbatim>\<open>errno == EINTR\<close>; \<open>Efault\<close>, it
  returns -1 with another \<^verbatim>\<open>errno\<close>. One call of \<^verbatim>\<open>pthread_cond_wait\<close> returns 0
  (\<open>Wake\<close>: signalled, broadcast or spurious) or an error number (\<open>Cfault\<close>). Each event
  comes with the value of \<^verbatim>\<open>g_terminate_flag\<close> that the code reads next. No other
  thread changes the queue while a call runs: a call that would have to be woken by
  another thread ends as \<open>Waiting\<close>.
\<close>

datatype sem_event = Quiet | Eintr | Efault

datatype cond_event = Wake | Cfault

type_synonym sem_script = "(sem_event \<times> bool) list"

type_synonym cond_script = "(cond_event \<times> bool) list"

text \<open>
  The environment of one call of \<^verbatim>\<open>queue_add\<close> or \<^verbatim>\<open>queue_remove\<close>: the value of
  \<^verbatim>\<open>g_terminate_flag\<close> at the first read of the condition-variable path, and the
  events of the waits of either strategy.
\<close>

record env_t =
  term0 :: bool
  sem_events :: sem_script
  cond_events :: cond_script

definition sem_post :: "nat \<Rightarrow> nat" where
  "sem_post s = s + 1"

text \<open>
  \<^verbatim>\<open>malloc(n * sizeof(message_t))\<close>: \<open>None\<close> is \<^verbatim>\<open>NULL\<close>, \<open>Some g\<close> a fresh block whose
  slot \<open>i\<close> holds the arbitrary value \<open>g i\<close>. \<^verbatim>\<open>realloc\<close> keeps the slots the old and
  the new block share.
\<close>

definition malloc_buffer :: "(nat \<Rightarrow> 'm) option \<Rightarrow> nat \<Rightarrow> 'm list option" where
  "malloc_buffer blk n = map_option (\<lambda>g. map g [0..<n]) blk"

definition realloc_buffer :: "'m list \<Rightarrow> (nat \<Rightarrow> 'm) option \<Rightarrow> nat \<Rightarrow> 'm list option" where
  "realloc_buffer old blk n =
     map_option (\<lambda>g. map (\<lambda>i. if i < length old then old ! i else g i) [0..<n]) blk"

subsection \<open>queue_create, queue_destroy and the getters (second listing, lines 465--544 and 929--982)\<close>

record 'm create_env =
  struct_alloc_ok :: bool
  buffer_block :: "(nat \<Rightarrow> 'm) option"
  mutex_init_ok :: bool
  first_init_ok :: bool
  second_init_ok :: bool

text \<open>
  In the condition-variable mode the two semaphores are never initialised; the model
  leaves them at 0, and no path of that mode reads them.
\<close>

definition queue_create :: "nat \<Rightarrow> sync_mode_t \<Rightarrow> 'm create_env \<Rightarrow> 'm queue_t option" where
  "queue_create initial_capacity mode cenv =
     (let initial_capacity =
            (if initial_capacity = 0 then INITIAL_QUEUE_CAPACITY else initial_capacity);
          initial_capacity =
            (if initial_capacity < MIN_QUEUE_CAPACITY then MIN_QUEUE_CAPACITY else initial_capacity);
          initial_capacity =
            (if MAX_QUEUE_CAPACITY < initial_capacity then MAX_QUEUE_CAPACITY else initial_capacity)
      in if \<not> struct_alloc_ok cenv then None
         else case malloc_buffer (buffer_block cenv) initial_capacity of
           None \<Rightarrow> None
         | Some buf \<Rightarrow>
             if \<not> mutex_init_ok cenv then None
             else if \<not> first_init_ok cenv then None
             else if \<not> second_init_ok cenv then None
             else Some \<lparr>messages = buf, capacity = initial_capacity, count = 0,
                        head_idx = 0, tail_idx = 0,
                        empty_slots = (case mode of SYNC_MODE_SEM \<Rightarrow> initial_capacity
                                       | SYNC_MODE_CONDVAR \<Rightarrow> 0),
                        full_slots = 0,
                        added_count_total = 0, extracted_count_total = 0\<rparr>)"

text \<open>
  \<^verbatim>\<open>queue_destroy\<close> as the list of the library calls it makes, in order (the
  \<^verbatim>\<open>print_error\<close> calls on a failed destroy left out). \<open>None\<close> is the \<^verbatim>\<open>NULL\<close> pointer.
\<close>

datatype lib_call =
    print_info_call string
  | sem_destroy_empty_slots | sem_destroy_full_slots
  | cond_destroy_not_empty | cond_destroy_not_full
  | mutex_destroy | free_messages | free_queue

definition queue_destroy :: "'m queue_t option \<Rightarrow> sync_mode_t \<Rightarrow> lib_call list" where
  "queue_destroy q mode =
     (case q of
        None \<Rightarrow> []
      | Some qv \<Rightarrow>
          [print_info_call ''Destroying queue resources...'']
          @ (case mode of
               SYNC_MODE_SEM \<Rightarrow> [sem_destroy_empty_slots, sem_destroy_full_slots]
             | SYNC_MODE_CONDVAR \<Rightarrow> [cond_destroy_not_empty, cond_destroy_not_full])
          @ [mutex_destroy, free_messages, free_queue,
             print_info_call ''Queue resources destroyed.''])"

text \<open>The getters; \<open>lock_ok\<close> says whether \<^verbatim>\<open>pthread_mutex_lock\<close> returned 0.\<close>

definition queue_get_count :: "'m queue_t option \<Rightarrow> bool \<Rightarrow> nat" where
  "queue_get_count q lock_ok =
     (case q of None \<Rightarrow> 0 | Some qv \<Rightarrow> if \<not> lock_ok then 0 else count qv)"

definition queue_get_capacity :: "'m queue_t option \<Rightarrow> bool \<Rightarrow> nat" where
  "queue_get_capacity q lock_ok =
     (case q of None \<Rightarrow> 0 | Some qv \<Rightarrow> if \<not> lock_ok then 0 else capacity qv)"

definition queue_get_added_total :: "'m queue_t option \<Rightarrow> bool \<Rightarrow> 64 word" where
  "queue_get_added_total q lock_ok =
     (case q of None \<Rightarrow> 0 | Some qv \<Rightarrow> if \<not> lock_ok then 0 else added_count_total qv)"

definition queue_get_extracted_total :: "'m queue_t option \<Rightarrow> bool \<Rightarrow> 64 word" where
  "queue_get_extracted_total q lock_ok =
     (case q of None \<Rightarrow> 0 | Some qv \<Rightarrow> if \<not> lock_ok then 0 else extracted_count_total qv)"

subsection \<open>queue_add and queue_remove (second listing, lines 555--783)\<close>

text \<open>
  The critical sections. \<open>enqueue\<close> is \<^verbatim>\<open>memcpy(&q->messages[q->tail_idx], msg, ...);
  q->tail_idx = (q->tail_idx + 1) % q->capacity; q->count++; q->added_count_total++\<close>,
  \<open>dequeue\<close> its mirror at \<^verbatim>\<open>head_idx\<close>, returning the message copied out. A write
  outside the buffer, undefined in C, leaves the list as it is.
\<close>

definition enqueue :: "'m queue_t \<Rightarrow> 'm \<Rightarrow> 'm queue_t" where
  "enqueue q msg =
     q\<lparr>messages := (messages q)[tail_idx q := msg],
       tail_idx := (tail_idx q + 1) mod capacity q,
       count := count q + 1,
       added_count_total := added_count_total q + 1\<rparr>"

definition dequeue :: "'m queue_t \<Rightarrow> 'm \<times> 'm queue_t" where
  "dequeue q =
     (messages q ! head_idx q,
      q\<lparr>head_idx := (head_idx q + 1) mod capacity q,
        count := count q - 1,
        extracted_count_total := extracted_count_total q + 1\<rparr>)"

text \<open>
  The loop \<^verbatim>\<open>while (sem_wait(&s) == -1) { if (errno == EINTR) { if (g_terminate_flag)
  return -1; continue; } else return -1; }\<close> on a semaphore of value \<open>s\<close>.
  \<open>Acquired t\<close>: the loop was left with a permit taken, and \<open>t\<close> is the flag as the
  check after the loop reads it.
\<close>

datatype sem_wait_result = Acquired bool | Terminated | Errored | Blocked

fun sem_wait_retry :: "nat \<Rightarrow> sem_script \<Rightarrow> sem_wait_result" where
  "sem_wait_retry s [] = Blocked"
| "sem_wait_retry s ((Quiet, t) # es) = (if 0 < s then Acquired t else Blocked)"
| "sem_wait_retry s ((Eintr, t) # es) = (if t then Terminated else sem_wait_retry s es)"
| "sem_wait_retry s ((Efault, t) # es) = Errored"

definition queue_add_sem :: "'m queue_t \<Rightarrow> 'm \<Rightarrow> sem_script \<Rightarrow> status \<times> 'm queue_t" where
  "queue_add_sem q msg es =
     (case sem_wait_retry (empty_slots q) es of
        Blocked \<Rightarrow> (Waiting, q)
      | Terminated \<Rightarrow> (Cancelled, q)
      | Errored \<Rightarrow> (Fault, q)
      | Acquired t \<Rightarrow>
          (let q = q\<lparr>empty_slots := empty_slots q - 1\<rparr>
           in if t then (Cancelled, q\<lparr>empty_slots := sem_post (empty_slots q)\<rparr>)
              else if capacity q \<le> count q
                then (Fault, q\<lparr>empty_slots := sem_post (empty_slots q)\<rparr>)
              else (let q = enqueue q msg
                    in (Ok, q\<lparr>full_slots := sem_post (full_slots q)\<rparr>))))"

text \<open>
  \<open>buf\<close> is what the caller's \<^verbatim>\<open>message_t *msg\<close> points to before the call; the
  second component of the result is what it points to afterwards.
\<close>

definition queue_remove_sem :: "'m queue_t \<Rightarrow> 'm \<Rightarrow> sem_script \<Rightarrow> status \<times> 'm \<times> 'm queue_t" where
  "queue_remove_sem q buf es =
     (case sem_wait_retry (full_slots q) es of
        Blocked \<Rightarrow> (Waiting, buf, q)
      | Terminated \<Rightarrow> (Cancelled, buf, q)
      | Errored \<Rightarrow> (Fault, buf, q)
      | Acquired t \<Rightarrow>
          (let q = q\<lparr>full_slots := full_slots q - 1\<rparr>
           in if t then (Cancelled, buf, q\<lparr>full_slots := sem_post (full_slots q)\<rparr>)
              else if count q = 0
                then (Fault, buf, q\<lparr>full_slots := sem_post (full_slots q)\<rparr>)
              else (case dequeue q of
                      (m, q) \<Rightarrow> (Ok, m, q\<lparr>empty_slots := sem_post (empty_slots q)\<rparr>))))"

text \<open>
  The loop \<^verbatim>\<open>while (p && !g_terminate_flag) { ret = pthread_cond_wait(...); if (ret != 0)
  { ...; return -1; } }\<close>, where \<open>p\<close> is \<^verbatim>\<open>q->count == q->capacity\<close> or
  \<^verbatim>\<open>q->count == 0\<close> (it cannot change while this call is the only one running) and
  \<open>t\<close> the flag as the loop condition reads it. \<open>Ready t\<close>: the loop was left, and the
  flag as the check after the loop reads it is \<open>t\<close> (the flag is only ever set, never
  cleared, so a flag read as set in the loop condition is read as set again).
\<close>

datatype cond_wait_result = Ready bool | CondErrored | CondBlocked

fun cond_wait_while :: "bool \<Rightarrow> bool \<Rightarrow> cond_script \<Rightarrow> cond_wait_result" where
  "cond_wait_while p t [] = (if p \<and> \<not> t then CondBlocked else Ready t)"
| "cond_wait_while p t ((Wake, t') # es) =
     (if p \<and> \<not> t then cond_wait_while p t' es else Ready t)"
| "cond_wait_while p t ((Cfault, t') # es) = (if p \<and> \<not> t then CondErrored else Ready t)"

definition queue_add_condvar ::
  "'m queue_t \<Rightarrow> 'm \<Rightarrow> bool \<Rightarrow> cond_script \<Rightarrow> status \<times> 'm queue_t" where
  "queue_add_condvar q msg t0 es =
     (case cond_wait_while (count q = capacity q) t0 es of
        CondBlocked \<Rightarrow> (Waiting, q)
      | CondErrored \<Rightarrow> (Fault, q)
      | Ready t \<Rightarrow>
          if t then (Cancelled, q)
          else if capacity q \<le> count q then (Fault, q)
          else (Ok, enqueue q msg))"

definition queue_remove_condvar ::
  "'m queue_t \<Rightarrow> 'm \<Rightarrow> bool \<Rightarrow> cond_script \<Rightarrow> status \<times> 'm \<times> 'm queue_t" where
  "queue_remove_condvar q buf t0 es =
     (case cond_wait_while (count q = 0) t0 es of
        CondBlocked \<Rightarrow> (Waiting, buf, q)
      | CondErrored \<Rightarrow> (Fault, buf, q)
      | Ready t \<Rightarrow>
          if t then (Cancelled, buf, q)
          else if count q = 0 then (Fault, buf, q)
          else (case dequeue q of (m, q) \<Rightarrow> (Ok, m, q)))"

text \<open>
  The two dispatchers. \<open>None\<close> is a \<^verbatim>\<open>NULL\<close> pointer, for the queue and for the
  message.
\<close>

definition queue_add ::
  "sync_mode_t \<Rightarrow> 'm queue_t option \<Rightarrow> 'm option \<Rightarrow> env_t \<Rightarrow> status \<times> 'm queue_t option" where
  "queue_add g_sync_mode q msg env =
     (case (q, msg) of
        (Some qv, Some m) \<Rightarrow>
          (case g_sync_mode of
             SYNC_MODE_SEM \<Rightarrow> apsnd Some (queue_add_sem qv m (sem_events env))
           | SYNC_MODE_CONDVAR \<Rightarrow>
               apsnd Some (queue_add_condvar qv m (term0 env) (cond_events env)))
      | _ \<Rightarrow> (Invalid, q))"

definition queue_remove ::
  "sync_mode_t \<Rightarrow> 'm queue_t option \<Rightarrow> 'm option \<Rightarrow> env_t
     \<Rightarrow> status \<times> 'm option \<times> 'm queue_t option" where
  "queue_remove g_sync_mode q msg env =
     (case (q, msg) of
        (Some qv, Some buf) \<Rightarrow>
          (case g_sync_mode of
             SYNC_MODE_SEM \<Rightarrow>
               (case queue_remove_sem qv buf (sem_events env) of
                  (st, m, qv') \<Rightarrow> (st, Some m, Some qv'))
           | SYNC_MODE_CONDVAR \<Rightarrow>
               (case queue_remove_condvar qv buf (term0 env) (cond_events env) of
                  (st, m, qv') \<Rightarrow> (st, Some m, Some qv')))
      | _ \<Rightarrow> (Invalid, msg, q))"

subsection \<open>queue_resize (second listing, lines 796--921)\<close>

text \<open>
  The new capacity, lines 809--824. \<^verbatim>\<open>change\<close> is a C \<^verbatim>\<open>int\<close>; the casts
  \<^verbatim>\<open>(size_t)change\<close> and \<^verbatim>\<open>(size_t)(-change)\<close> are taken of a positive value.
  \<^verbatim>\<open>MAX_QUEUE_CAPACITY - old_capacity\<close> is a subtraction of \<^verbatim>\<open>size_t\<close>, which
  cannot wrap while the capacity is at most \<^verbatim>\<open>MAX_QUEUE_CAPACITY\<close>.
\<close>

definition new_capacity_of :: "nat \<Rightarrow> int \<Rightarrow> nat" where
  "new_capacity_of old_capacity change =
     (if 0 < change then
        (let new_capacity =
               (if MAX_QUEUE_CAPACITY - old_capacity < nat change then MAX_QUEUE_CAPACITY
                else old_capacity + nat change)
         in if MAX_QUEUE_CAPACITY < new_capacity then MAX_QUEUE_CAPACITY else new_capacity)
      else
        (let decrease_amount = nat (- change);
             new_capacity =
               (if old_capacity \<le> decrease_amount then MIN_QUEUE_CAPACITY
                else old_capacity - decrease_amount)
         in if new_capacity < MIN_QUEUE_CAPACITY then MIN_QUEUE_CAPACITY else new_capacity))"

text \<open>
  The copy loop, lines 849--851: \<^verbatim>\<open>for (i = 0; i < current_count; ++i)
  memcpy(&new_messages_buffer[i], &q->messages[(q->head_idx + i) % old_capacity], ...)\<close>.
\<close>

function copy_loop :: "'m list \<Rightarrow> 'm list \<Rightarrow> nat \<Rightarrow> nat \<Rightarrow> nat \<Rightarrow> nat \<Rightarrow> 'm list" where
  "copy_loop new_buf old_buf head old_capacity n i =
     (if i < n
      then copy_loop (new_buf[i := old_buf ! ((head + i) mod old_capacity)])
             old_buf head old_capacity n (Suc i)
      else new_buf)"
  by pat_completeness auto
termination
  by (relation "measure (\<lambda>(new_buf, old_buf, head, old_capacity, n, i). n - i)") auto

declare copy_loop.simps [simp del]

text \<open>
  The loop that takes back \<open>k\<close> permits of \<^verbatim>\<open>empty_slots\<close> on a shrink, lines
  885--907: for each permit, \<^verbatim>\<open>sem_wait\<close> is retried on \<^verbatim>\<open>EINTR\<close> unless the flag
  is set, in which case the function unlocks and returns -1. The result is the way the
  loop ends and the value of the semaphore then.
\<close>

fun reclaim_slots :: "nat \<Rightarrow> nat \<Rightarrow> sem_script \<Rightarrow> status \<times> nat" where
  "reclaim_slots 0 s es = (Ok, s)"
| "reclaim_slots (Suc k) s [] = (Waiting, s)"
| "reclaim_slots (Suc k) s ((Quiet, t) # es) =
     (if 0 < s then reclaim_slots k (s - 1) es else (Waiting, s))"
| "reclaim_slots (Suc k) s ((Eintr, t) # es) =
     (if t then (Cancelled, s) else reclaim_slots (Suc k) s es)"
| "reclaim_slots (Suc k) s ((Efault, t) # es) = (Fault, s)"

text \<open>
  Lines 847--868: the live items are copied into the new buffer, which replaces the old
  one, and the indices are set. \<^verbatim>\<open>tail_idx\<close> is assigned three times.
\<close>

definition relocate :: "'m queue_t \<Rightarrow> nat \<Rightarrow> 'm list \<Rightarrow> 'm queue_t" where
  "relocate q new_capacity new_messages_buffer =
     (let old_capacity = capacity q;
          current_count = count q;
          new_messages_buffer =
            (if 0 < current_count
             then copy_loop new_messages_buffer (messages q) (head_idx q)
                    old_capacity current_count 0
             else new_messages_buffer);
          q = q\<lparr>messages := new_messages_buffer\<rparr>;
          q = q\<lparr>capacity := new_capacity\<rparr>;
          q = q\<lparr>head_idx := 0\<rparr>;
          q = q\<lparr>tail_idx := current_count\<rparr>;
          q = (if tail_idx q = capacity q \<and> 0 < capacity q then q\<lparr>tail_idx := 0\<rparr> else q)
      in q\<lparr>tail_idx :=
             (if current_count = new_capacity \<and> 0 < new_capacity then 0 else current_count)\<rparr>)"

text \<open>
  Lines 874--920: the semaphore \<^verbatim>\<open>empty_slots\<close> is posted once for each slot gained,
  or waited on once for each slot lost; the condition variables are broadcast, which
  changes no data.
\<close>

definition adjust_sync ::
  "sync_mode_t \<Rightarrow> nat \<Rightarrow> nat \<Rightarrow> 'm queue_t \<Rightarrow> sem_script \<Rightarrow> status \<times> 'm queue_t" where
  "adjust_sync g_sync_mode old_capacity new_capacity q es =
     (case g_sync_mode of
        SYNC_MODE_SEM \<Rightarrow>
          if old_capacity < new_capacity
          then (Ok, q\<lparr>empty_slots :=
                       (sem_post ^^ (new_capacity - old_capacity)) (empty_slots q)\<rparr>)
          else
            (case reclaim_slots (old_capacity - new_capacity) (empty_slots q) es of
               (st, s) \<Rightarrow> (st, q\<lparr>empty_slots := s\<rparr>))
      | SYNC_MODE_CONDVAR \<Rightarrow> (Ok, q))"

text \<open>
  \<open>blk\<close> is what \<^verbatim>\<open>malloc\<close> returns for the new buffer, \<open>es\<close> the events of the
  \<^verbatim>\<open>sem_wait\<close> calls of a shrink.
\<close>

definition queue_resize ::
  "sync_mode_t \<Rightarrow> 'm queue_t option \<Rightarrow> int \<Rightarrow> (nat \<Rightarrow> 'm) option \<Rightarrow> sem_script
     \<Rightarrow> status \<times> 'm queue_t option" where
  "queue_resize g_sync_mode qp change blk es =
     (case qp of
        None \<Rightarrow> (Invalid, None)
      | Some q \<Rightarrow>
          if change = 0 then (Invalid, Some q)
          else
            (let old_capacity = capacity q;
                 current_count = count q;
                 new_capacity = new_capacity_of old_capacity change
             in if new_capacity = old_capacity then (Ok, Some q)
                else if new_capacity < current_count then (Rejected, Some q)
                else
                  (case malloc_buffer blk new_capacity of
                     None \<Rightarrow> (Fault, Some q)
                   | Some new_messages_buffer \<Rightarrow>
                       apsnd Some
                         (adjust_sync g_sync_mode old_capacity new_capacity
                            (relocate q new_capacity new_messages_buffer) es))))"

subsection \<open>queue_resize (first listing, lines 291--378)\<close>

text \<open>
  The first listing of \<^verbatim>\<open>queue_manager.c\<close> has a \<^verbatim>\<open>queue_resize\<close> of its own, called
  \<open>queue_resize_realloc\<close> here. It computes the new capacity without the overflow
  guard, resizes the buffer in place with \<^verbatim>\<open>realloc\<close> and reduces the two indices
  modulo the new capacity. Its loop for taking back permits, lines 358--363, reads
  \<^verbatim>\<open>if (errno == EINTR) { if (g_terminate_flag) { /* Handle termination? */ } continue; }\<close>.
\<close>

definition new_capacity_realloc :: "nat \<Rightarrow> int \<Rightarrow> nat" where
  "new_capacity_realloc current_capacity change =
     (if 0 < change then
        (let new_capacity = current_capacity + nat change
         in if MAX_QUEUE_CAPACITY < new_capacity then MAX_QUEUE_CAPACITY else new_capacity)
      else
        (let decrease_amount = nat (- change);
             new_capacity =
               (if current_capacity \<le> decrease_amount then MIN_QUEUE_CAPACITY
                else current_capacity - decrease_amount)
         in if new_capacity < MIN_QUEUE_CAPACITY then MIN_QUEUE_CAPACITY else new_capacity))"

fun reclaim_slots_realloc :: "nat \<Rightarrow> nat \<Rightarrow> sem_script \<Rightarrow> status \<times> nat" where
  "reclaim_slots_realloc 0 s es = (Ok, s)"
| "reclaim_slots_realloc (Suc k) s [] = (Waiting, s)"
| "reclaim_slots_realloc (Suc k) s ((Quiet, t) # es) =
     (if 0 < s then reclaim_slots_realloc k (s - 1) es else (Waiting, s))"
| "reclaim_slots_realloc (Suc k) s ((Eintr, t) # es) =
     (if t then reclaim_slots_realloc (Suc k) s es else reclaim_slots_realloc (Suc k) s es)"
| "reclaim_slots_realloc (Suc k) s ((Efault, t) # es) = (Fault, s)"

text \<open>
  Lines 337--343: the buffer is replaced by what \<^verbatim>\<open>realloc\<close> returned and both
  indices are reduced modulo the new capacity.
\<close>

definition reindex :: "'m queue_t \<Rightarrow> nat \<Rightarrow> 'm list \<Rightarrow> 'm queue_t" where
  "reindex q new_capacity new_buffer =
     (let q = q\<lparr>messages := new_buffer\<rparr>;
          q = q\<lparr>capacity := new_capacity\<rparr>;
          q = q\<lparr>head_idx := head_idx q mod capacity q\<rparr>
      in q\<lparr>tail_idx := tail_idx q mod capacity q\<rparr>)"

definition adjust_sync_realloc ::
  "sync_mode_t \<Rightarrow> nat \<Rightarrow> nat \<Rightarrow> 'm queue_t \<Rightarrow> sem_script \<Rightarrow> status \<times> 'm queue_t" where
  "adjust_sync_realloc g_sync_mode old_capacity new_capacity q es =
     (case g_sync_mode of
        SYNC_MODE_SEM \<Rightarrow>
          if old_capacity < new_capacity
          then (Ok, q\<lparr>empty_slots :=
                       (sem_post ^^ (new_capacity - old_capacity)) (empty_slots q)\<rparr>)
          else
            (case reclaim_slots_realloc (old_capacity - new_capacity) (empty_slots q) es of
               (st, s) \<Rightarrow> (st, q\<lparr>empty_slots := s\<rparr>))
      | SYNC_MODE_CONDVAR \<Rightarrow> (Ok, q))"

definition queue_resize_realloc ::
  "sync_mode_t \<Rightarrow> 'm queue_t option \<Rightarrow> int \<Rightarrow> (nat \<Rightarrow> 'm) option \<Rightarrow> sem_script
     \<Rightarrow> status \<times> 'm queue_t option" where
  "queue_resize_realloc g_sync_mode qp change blk es =
     (case qp of
        None \<Rightarrow> (Invalid, None)
      | Some q \<Rightarrow>
          if change = 0 then (Invalid, Some q)
          else
            (let current_capacity = capacity q;
                 current_count = count q;
                 new_capacity = new_capacity_realloc current_capacity change
             in if new_capacity = current_capacity then (Ok, Some q)
                else if new_capacity < current_capacity \<and> new_capacity < current_count
                  then (Rejected, Some q)
                else
                  (case realloc_buffer (messages q) blk new_capacity of
                     None \<Rightarrow> (Fault, Some q)
                   | Some new_buffer \<Rightarrow>
                       apsnd Some
                         (adjust_sync_realloc g_sync_mode current_capacity new_capacity
                            (reindex q new_capacity new_buffer) es))))"

section \<open>Runs of the queue\<close>

text \<open>
  The calls that change the queue, each with its environment. Every buffer change is
  made with the mutex held, so a run of the program changes the queue as the sequence of
  its calls does, in the order in which they took the mutex. \<open>Semaphores a b\<close> stands for
  what other threads do to the two semaphores between these calls (a permit held by a
  thread that has left \<^verbatim>\<open>sem_wait\<close> and not locked the mutex yet, the posts of
  \<^verbatim>\<open>cleanup_threads\<close> in \<^verbatim>\<open>main.c\<close>): it sets \<^verbatim>\<open>empty_slots\<close> to \<open>a\<close> and
  \<^verbatim>\<open>full_slots\<close> to \<open>b\<close> and leaves the rest of the queue alone.
\<close>

datatype 'm call =
    Add 'm env_t
  | Remove 'm env_t
  | Resize int "(nat \<Rightarrow> 'm) option" sem_script
  | Semaphores nat nat

text \<open>
  \<open>run mode q calls\<close> makes the calls in order on the queue that \<open>q\<close> points to and
  returns the messages of the calls of \<^verbatim>\<open>queue_add\<close> that returned 0, the messages
  copied out by the calls of \<^verbatim>\<open>queue_remove\<close> that returned 0, and the final queue.
\<close>

fun run ::
  "sync_mode_t \<Rightarrow> 'm queue_t option \<Rightarrow> 'm call list \<Rightarrow> 'm list \<times> 'm list \<times> 'm queue_t option" where
  "run mode q [] = ([], [], q)"
| "run mode q (Add m env # calls) =
     (case queue_add mode q (Some m) env of
        (st, q') \<Rightarrow>
          (case run mode q' calls of
             (added, removed, qf) \<Rightarrow> ((if st = Ok then m # added else added), removed, qf)))"
| "run mode q (Remove buf env # calls) =
     (case queue_remove mode q (Some buf) env of
        (st, out, q') \<Rightarrow>
          (case run mode q' calls of
             (added, removed, qf) \<Rightarrow>
               (added, (if st = Ok then the out # removed else removed), qf)))"
| "run mode q (Resize change blk es # calls) =
     (case queue_resize mode q change blk es of (st, q') \<Rightarrow> run mode q' calls)"
| "run mode q (Semaphores a b # calls) =
     run mode (map_option (\<lambda>qv. qv\<lparr>empty_slots := a, full_slots := b\<rparr>) q) calls"

text \<open>
  The items a queue holds, oldest first: the \<open>count\<close> slots from \<open>head_idx\<close> on,
  around the ring.
\<close>

definition contents :: "'m queue_t \<Rightarrow> 'm list" where
  "contents q = map (\<lambda>i. messages q ! ((head_idx q + i) mod capacity q)) [0..<count q]"

text \<open>
  The invariant as the specification words it. The difference of the two totals is taken
  in \<^verbatim>\<open>unsigned long\<close>.
\<close>

definition spec_invariant :: "'m queue_t \<Rightarrow> bool" where
  "spec_invariant q \<longleftrightarrow>
     0 \<le> count q \<and> count q \<le> capacity q
     \<and> ((int (tail_idx q) - int (head_idx q)) mod int (capacity q) = int (count q)
        \<or> count q = capacity q)
     \<and> added_count_total q - extracted_count_total q = of_nat (count q)"

text \<open>The invariant the operations keep, which says where both indices are.\<close>

definition queue_inv :: "'m queue_t \<Rightarrow> bool" where
  "queue_inv q \<longleftrightarrow>
     MIN_QUEUE_CAPACITY \<le> capacity q \<and> capacity q \<le> MAX_QUEUE_CAPACITY
     \<and> length (messages q) = capacity q
     \<and> count q \<le> capacity q
     \<and> head_idx q < capacity q
     \<and> tail_idx q = (head_idx q + count q) mod capacity q
     \<and> added_count_total q - extracted_count_total q = of_nat (count q)"

section \<open>Concrete queues and environments for the examples\<close>

text \<open>
  A block of memory holding \<open>''?''\<close> everywhere, an environment in which every
  allocation and initialisation succeeds, and the environment of a call that meets
  neither signal nor error while the flag stays clear.
\<close>

definition junk :: "nat \<Rightarrow> string" where
  "junk i = ''?''"

definition fresh_env :: "string create_env" where
  "fresh_env = \<lparr>struct_alloc_ok = True, buffer_block = Some junk, mutex_init_ok = True,
                 first_init_ok = True, second_init_ok = True\<rparr>"

definition calm :: env_t where
  "calm = \<lparr>term0 = False, sem_events = [(Quiet, False)], cond_events = []\<rparr>"

text \<open>A new queue of two slots in the semaphore mode, and a run that fills and drains it.\<close>

definition two_slots :: "string queue_t" where
  "two_slots = \<lparr>messages = [''?'', ''?''], capacity = 2, count = 0, head_idx = 0,
                 tail_idx = 0, empty_slots = 2, full_slots = 0,
                 added_count_total = 0, extracted_count_total = 0\<rparr>"

definition abc_calls :: "string call list" where
  "abc_calls = [Add ''A'' calm, Add ''B'' calm, Remove ''?'' calm,
                Add ''C'' calm, Remove ''?'' calm, Remove ''?'' calm]"

definition two_slots_drained :: "string queue_t" where
  "two_slots_drained = \<lparr>messages = [''C'', ''B''], capacity = 2, count = 0, head_idx = 1,
                         tail_idx = 1, empty_slots = 2, full_slots = 0,
                         added_count_total = 3, extracted_count_total = 3\<rparr>"

text \<open>
  A new queue of five slots in the condition-variable mode, and a run that wraps the
  ring, grows it by one slot and shrinks it by three.
\<close>

definition five_slots :: "string queue_t" where
  "five_slots = \<lparr>messages = [''?'', ''?'', ''?'', ''?'', ''?''], capacity = 5, count = 0,
                  head_idx = 0, tail_idx = 0, empty_slots = 0, full_slots = 0,
                  added_count_total = 0, extracted_count_total = 0\<rparr>"

definition wrap_calls :: "string call list" where
  "wrap_calls = [Add ''X'' calm, Add ''Y'' calm, Add ''Z'' calm, Remove ''?'' calm,
                 Remove ''?'' calm, Remove ''?'' calm, Add ''A'' calm, Add ''B'' calm,
                 Add ''C'' calm, Resize 1 (Some junk) [], Resize (- 3) (Some junk) []]"

definition three_slots_full :: "string queue_t" where
  "three_slots_full = \<lparr>messages = [''A'', ''B'', ''C''], capacity = 3, count = 3,
                        head_idx = 0, tail_idx = 0, empty_slots = 0, full_slots = 0,
                        added_count_total = 6, extracted_count_total = 3\<rparr>"

text \<open>
  A queue of two slots holding one item, with a permit in each semaphore, and
  environments in which the termination flag is read as set: at the check after
  \<^verbatim>\<open>sem_wait\<close> returned 0, after an interrupted \<^verbatim>\<open>sem_wait\<close>, on entry, and after a
  wake-up.
\<close>

definition one_of_two :: "string queue_t" where
  "one_of_two = \<lparr>messages = [''A'', ''?''], capacity = 2, count = 1, head_idx = 0,
                  tail_idx = 1, empty_slots = 1, full_slots = 1,
                  added_count_total = 1, extracted_count_total = 0\<rparr>"

definition set_after_permit :: env_t where
  "set_after_permit = \<lparr>term0 = False, sem_events = [(Eintr, False), (Quiet, True)],
                        cond_events = []\<rparr>"

definition set_at_signal :: env_t where
  "set_at_signal = \<lparr>term0 = True, sem_events = [(Eintr, True)], cond_events = []\<rparr>"

definition set_at_wake :: env_t where
  "set_at_wake = \<lparr>term0 = False, sem_events = [], cond_events = [(Wake, True)]\<rparr>"

text \<open>
  A queue of five slots holding \<open>A, B, C\<close>, in the semaphore mode, and a queue at the
  largest capacity.
\<close>

definition five_abc :: "string queue_t" where
  "five_abc = \<lparr>messages = [''A'', ''B'', ''C'', ''?'', ''?''], capacity = 5, count = 3,
                head_idx = 0, tail_idx = 3, empty_slots = 2, full_slots = 3,
                added_count_total = 3, extracted_count_total = 0\<rparr>"

definition hundred_slots :: "string queue_t" where
  "hundred_slots = \<lparr>messages = replicate 100 ''?'', capacity = 100, count = 0,
                     head_idx = 0, tail_idx = 0, empty_slots = 100, full_slots = 0,
                     added_count_total = 0, extracted_count_total = 0\<rparr>"

text \<open>
  The queue of five slots after \<open>X, Y, Z\<close> went through it and \<open>A, B, C\<close> were added:
  the items wrap around the end of the buffer. Then what the \<^verbatim>\<open>queue_resize\<close> of the
  first listing makes of it for a change of -2.
\<close>

definition wrap_abc_calls :: "string call list" where
  "wrap_abc_calls = [Add ''X'' calm, Add ''Y'' calm, Add ''Z'' calm, Remove ''?'' calm,
                     Remove ''?'' calm, Remove ''?'' calm, Add ''A'' calm, Add ''B'' calm,
                     Add ''C'' calm]"

definition five_wrapped :: "string queue_t" where
  "five_wrapped = \<lparr>messages = [''C'', ''Y'', ''Z'', ''A'', ''B''], capacity = 5, count = 3,
                    head_idx = 3, tail_idx = 1, empty_slots = 0, full_slots = 0,
                    added_count_total = 6, extracted_count_total = 3\<rparr>"

definition three_realloc :: "string queue_t" where
  "three_realloc = \<lparr>messages = [''C'', ''Y'', ''Z''], capacity = 3, count = 3,
                     head_idx = 0, tail_idx = 1, empty_slots = 0, full_slots = 0,
                     added_count_total = 6, extracted_count_total = 3\<rparr>"

text \<open>And what it makes of the same queue for a change of -1, the step of \<^verbatim>\<open>main.c\<close>.\<close>

definition four_realloc :: "string queue_t" where
  "four_realloc = \<lparr>messages = [''C'', ''Y'', ''Z'', ''A''], capacity = 4, count = 3,
                    head_idx = 3, tail_idx = 1, empty_slots = 0, full_slots = 0,
                    added_count_total = 6, extracted_count_total = 3\<rparr>"

text \<open>
  The queue \<open>five_abc\<close> at a moment when a producer has taken a permit of
  \<^verbatim>\<open>empty_slots\<close> and has not locked the mutex yet, and the events of a shrink during
  which a signal sets the termination flag: one permit is taken back, then every
  \<^verbatim>\<open>sem_wait\<close> is interrupted with the flag set.
\<close>

definition five_abc_in_flight :: "string queue_t" where
  "five_abc_in_flight = five_abc\<lparr>empty_slots := 1\<rparr>"

definition signal_during_shrink :: sem_script where
  "signal_during_shrink = [(Quiet, False), (Eintr, True), (Eintr, True), (Eintr, True)]"

text \<open>Two messages that differ in the hash field and in a payload byte past their size.\<close>

definition empty_message :: message_t where
  "empty_message = \<lparr>type = 1, hash = 0, size_f = 0, data = replicate 256 0\<rparr>"

definition short_message :: message_t where
  "short_message = \<lparr>type = 1, hash = 0, size_f = 2, data = 7 # 9 # replicate 254 0\<rparr>"

definition short_message_other :: message_t where
  "short_message_other = \<lparr>type = 1, hash = 513, size_f = 2, data = 7 # 9 # replicate 254 255\<rparr>"

text \<open>
  A producer's turn: the uninitialised message on its stack, its random draws, the
  message it builds from them, and a queue of one slot that the message goes through.
\<close>

definition stack_garbage :: message_t where
  "stack_garbage = \<lparr>type = 170, hash = 43690, size_f = 170, data = replicate 256 170\<rparr>"

definition garbage_block :: "nat \<Rightarrow> message_t" where
  "garbage_block i = stack_garbage"

definition draws :: "nat \<Rightarrow> 8 word" where
  "draws i = of_nat (i + 7)"

definition produced :: message_t where
  "produced = \<lparr>type = 1, hash = 38354, size_f = 2, data = 7 # 8 # replicate 254 170\<rparr>"

definition message_env :: "message_t create_env" where
  "message_env = \<lparr>struct_alloc_ok = True, buffer_block = Some garbage_block,
                   mutex_init_ok = True, first_init_ok = True, second_init_ok = True\<rparr>"

definition one_slot :: "message_t queue_t" where
  "one_slot = \<lparr>messages = [stack_garbage], capacity = 1, count = 0, head_idx = 0,
                tail_idx = 0, empty_slots = 1, full_slots = 0,
                added_count_total = 0, extracted_count_total = 0\<rparr>"

definition one_slot_after :: "message_t queue_t" where
  "one_slot_after = \<lparr>messages = [produced], capacity = 1, count = 0, head_idx = 0,
                      tail_idx = 0, empty_slots = 1, full_slots = 0,
                      added_count_total = 1, extracted_count_total = 1\<rparr>"

section \<open>Properties of the hash\<close>

lemma hash_round_times33: "hash_round (of_nat a) b = of_nat (times33_round a (unat b))"
  by (simp add: hash_round_def times33_round_def push_bit_eq_mult)

lemma foldl_hash_round:
  "foldl hash_round (of_nat a) bs = of_nat (foldl times33_round a (map unat bs))"
  by (induction bs arbitrary: a) (simp_all add: hash_round_times33)

lemma hash_loop_foldl:
  "n \<le> length bs \<Longrightarrow> i \<le> n \<Longrightarrow>
     hash_loop bs n i h = foldl hash_round h (take (n - i) (drop i bs))"
proof (induction bs n i h rule: hash_loop.induct)
  case (1 byte_ptr n i h)
  show ?case
  proof (cases "i < n")
    case True
    then have len: "i < length byte_ptr" using "1.prems" by simp
    have step: "n - i = Suc (n - Suc i)" using True by simp
    have "drop i byte_ptr = byte_ptr ! i # drop (Suc i) byte_ptr"
      using len by (simp add: Cons_nth_drop_Suc)
    then have "take (n - i) (drop i byte_ptr) =
        byte_ptr ! i # take (n - Suc i) (drop (Suc i) byte_ptr)"
      by (simp only: step take_Suc_Cons)
    moreover have "hash_loop byte_ptr n (Suc i) (hash_round h (byte_ptr ! i)) =
        foldl hash_round (hash_round h (byte_ptr ! i)) (take (n - Suc i) (drop (Suc i) byte_ptr))"
      using "1.IH" [OF True] "1.prems" True by simp
    ultimately show ?thesis using True by (subst hash_loop.simps) simp
  next
    case False
    then show ?thesis using "1.prems" by (subst hash_loop.simps) simp
  qed
qed

lemma hash_loop_cong:
  "\<forall>j. i \<le> j \<and> j < n \<longrightarrow> xs ! j = ys ! j \<Longrightarrow> hash_loop xs n i h = hash_loop ys n i h"
proof (induction xs n i h rule: hash_loop.induct)
  case (1 byte_ptr n i h)
  show ?case
  proof (cases "i < n")
    case True
    have eq: "byte_ptr ! i = ys ! i" using "1.prems" True by simp
    have "hash_loop byte_ptr n (Suc i) (hash_round h (byte_ptr ! i)) =
          hash_loop ys n (Suc i) (hash_round h (byte_ptr ! i))"
      using "1.IH" [OF True] "1.prems" by simp
    then show ?thesis using True eq
      by (subst hash_loop.simps, subst (2) hash_loop.simps) simp
  next
    case False
    then show ?thesis by (subst hash_loop.simps, subst (2) hash_loop.simps) simp
  qed
qed

lemma calculate_message_hash_agree:
  assumes "type m1 = type m2" and "size_f m1 = size_f m2"
    and "\<forall>j < unat (size_f m1). data m1 ! j = data m2 ! j"
  shows "calculate_message_hash m1 = calculate_message_hash m2"
proof -
  have "hash_loop (data m1) (unat (size_f m2)) 0 (hash_round (hash_round 0 (type m2)) (size_f m2))
      = hash_loop (data m2) (unat (size_f m2)) 0 (hash_round (hash_round 0 (type m2)) (size_f m2))"
    by (rule hash_loop_cong) (use assms in simp)
  then show ?thesis using assms by (simp add: calculate_message_hash_def)
qed

lemma calculate_message_hash_ignores_hash:
  "calculate_message_hash (msg\<lparr>hash := v\<rparr>) = calculate_message_hash msg"
  by (simp add: calculate_message_hash_def)

lemma consumer_accepts_producer_message:
  "consumer_hash_ok (producer_message raw t s rnd)"
  by (simp add: consumer_hash_ok_def producer_message_def Let_def
      calculate_message_hash_ignores_hash)

section \<open>The ring buffer: invariant and contents\<close>

lemma ring_index_inj:
  fixes h c i j :: nat
  assumes "i < c" "j < c" "(h + i) mod c = (h + j) mod c"
  shows "i = j"
proof -
  have "int ((h + i) mod c) = int ((h + j) mod c)" using assms(3) by simp
  then have "(int h + int i) mod int c = (int h + int j) mod int c"
    by (simp add: zmod_int)
  then have "(int i) mod int c = (int j) mod int c"
    by (metis add_diff_cancel_left' mod_diff_cong mod_diff_left_eq mod_mod_trivial)
  then show ?thesis using assms by simp
qed

lemma tail_minus_head:
  fixes h c n :: nat
  assumes "n < c"
  shows "(int ((h + n) mod c) - int h) mod int c = int n"
proof -
  have "(int ((h + n) mod c) - int h) mod int c = ((int h + int n) mod int c - int h) mod int c"
    by (simp add: zmod_int)
  also have "\<dots> = (int h + int n - int h) mod int c"
    by (simp only: mod_diff_left_eq)
  also have "\<dots> = int n" using assms by simp
  finally show ?thesis .
qed

lemma queue_inv_imp_spec_invariant: "queue_inv q \<Longrightarrow> spec_invariant q"
  by (cases "count q = capacity q")
     (simp_all add: queue_inv_def spec_invariant_def tail_minus_head)

lemma queue_inv_semaphores [simp]:
  "queue_inv (q\<lparr>empty_slots := a\<rparr>) = queue_inv q"
  "queue_inv (q\<lparr>full_slots := b\<rparr>) = queue_inv q"
  by (simp_all add: queue_inv_def)

lemma contents_semaphores [simp]:
  "contents (q\<lparr>empty_slots := a\<rparr>) = contents q"
  "contents (q\<lparr>full_slots := b\<rparr>) = contents q"
  by (simp_all add: contents_def)

lemma queue_inv_enqueue:
  assumes "queue_inv q" and "count q < capacity q"
  shows "queue_inv (enqueue q m)"
proof -
  have "(Suc ((head_idx q + count q) mod capacity q)) mod capacity q
          = Suc (head_idx q + count q) mod capacity q"
    by (rule mod_Suc_eq)
  then show ?thesis using assms by (simp add: queue_inv_def enqueue_def)
qed

lemma contents_enqueue:
  assumes "queue_inv q" and "count q < capacity q"
  shows "contents (enqueue q m) = contents q @ [m]"
proof -
  let ?c = "capacity q" and ?h = "head_idx q"
  have tail: "tail_idx q = (?h + count q) mod ?c" and len: "length (messages q) = ?c"
    and cpos: "0 < ?c"
    using assms by (simp_all add: queue_inv_def)
  have old: "(messages q)[tail_idx q := m] ! ((?h + i) mod ?c) = messages q ! ((?h + i) mod ?c)"
    if "i < count q" for i
  proof -
    have "(?h + i) mod ?c \<noteq> (?h + count q) mod ?c"
      using ring_index_inj [of i ?c "count q" ?h] that assms(2) by auto
    then show ?thesis using tail by simp
  qed
  have new: "(messages q)[tail_idx q := m] ! ((?h + count q) mod ?c) = m"
    using tail len cpos by simp
  show ?thesis using old new by (simp add: contents_def enqueue_def)
qed

lemma dequeue_contents:
  assumes "queue_inv q" and "0 < count q"
  shows "contents q = fst (dequeue q) # contents (snd (dequeue q))"
proof -
  let ?c = "capacity q" and ?h = "head_idx q"
  have hlt: "?h < ?c" using assms by (simp add: queue_inv_def)
  have upt: "[0..<count q] = 0 # map Suc [0..<count q - 1]"
    using assms(2) by (metis Suc_pred' map_Suc_upt upt_conv_Cons)
  have idx: "((?h + 1) mod ?c + i) mod ?c = (?h + Suc i) mod ?c" for i
    by (simp add: mod_add_left_eq)
  have "contents q = map (\<lambda>i. messages q ! ((?h + i) mod ?c)) (0 # map Suc [0..<count q - 1])"
    unfolding contents_def using upt by simp
  then show ?thesis using hlt idx by (simp add: contents_def dequeue_def comp_def)
qed

lemma queue_inv_dequeue:
  assumes "queue_inv q" and "0 < count q"
  shows "queue_inv (snd (dequeue q))"
proof -
  let ?c = "capacity q" and ?h = "head_idx q"
  have cpos: "0 < ?c" using assms by (simp add: queue_inv_def)
  have "(Suc ?h mod ?c + (count q - 1)) mod ?c = (Suc ?h + (count q - 1)) mod ?c"
    by (rule mod_add_left_eq)
  then have tl: "(Suc ?h mod ?c + (count q - 1)) mod ?c = (?h + count q) mod ?c"
    using assms(2) by simp
  have tot: "added_count_total q - (extracted_count_total q + 1) = of_nat (count q - 1)"
    if "added_count_total q - extracted_count_total q = of_nat (count q)"
    using that assms(2) by (simp add: of_nat_diff diff_add_eq_diff_diff_swap)
  show ?thesis using assms cpos tl tot by (auto simp add: queue_inv_def dequeue_def)
qed

lemma sem_wait_retry_Acquired: "sem_wait_retry s es = Acquired t \<Longrightarrow> 0 < s"
  by (induction s es rule: sem_wait_retry.induct) (auto split: if_splits)

lemma queue_add_sem_effect:
  assumes "queue_add_sem q m es = (st, q')"
  shows "(st = Ok \<and> count q < capacity q
            \<and> q' = (enqueue q m)\<lparr>empty_slots := empty_slots q - 1,
                                   full_slots := full_slots q + 1\<rparr>)
         \<or> (st \<noteq> Ok \<and> q' = q)"
proof (cases "sem_wait_retry (empty_slots q) es")
  case (Acquired t)
  then have "0 < empty_slots q" by (rule sem_wait_retry_Acquired)
  then show ?thesis using assms Acquired
    by (auto simp: queue_add_sem_def Let_def sem_post_def enqueue_def split: if_splits)
qed (use assms in \<open>auto simp: queue_add_sem_def\<close>)

lemma queue_remove_sem_effect:
  assumes "queue_remove_sem q buf es = (st, out, q')"
  shows "(st = Ok \<and> 0 < count q \<and> out = fst (dequeue q)
            \<and> q' = (snd (dequeue q))\<lparr>full_slots := full_slots q - 1,
                                       empty_slots := empty_slots q + 1\<rparr>)
         \<or> (st \<noteq> Ok \<and> out = buf \<and> q' = q)"
proof (cases "sem_wait_retry (full_slots q) es")
  case (Acquired t)
  then have "0 < full_slots q" by (rule sem_wait_retry_Acquired)
  then show ?thesis using assms Acquired
    by (auto simp: queue_remove_sem_def Let_def sem_post_def dequeue_def split: if_splits)
qed (use assms in \<open>auto simp: queue_remove_sem_def\<close>)

lemma queue_add_condvar_effect:
  assumes "queue_add_condvar q m t0 es = (st, q')"
  shows "(st = Ok \<and> count q < capacity q \<and> q' = enqueue q m) \<or> (st \<noteq> Ok \<and> q' = q)"
  using assms
  by (auto simp: queue_add_condvar_def split: cond_wait_result.splits if_splits)

lemma queue_remove_condvar_effect:
  assumes "queue_remove_condvar q buf t0 es = (st, out, q')"
  shows "(st = Ok \<and> 0 < count q \<and> out = fst (dequeue q) \<and> q' = snd (dequeue q))
         \<or> (st \<noteq> Ok \<and> out = buf \<and> q' = q)"
  using assms
  by (auto simp: queue_remove_condvar_def split: cond_wait_result.splits if_splits prod.splits)

section \<open>queue_resize: the layout it leaves\<close>

lemma new_capacity_of_bounds:
  "MIN_QUEUE_CAPACITY \<le> c \<Longrightarrow> c \<le> MAX_QUEUE_CAPACITY \<Longrightarrow>
     MIN_QUEUE_CAPACITY \<le> new_capacity_of c change \<and> new_capacity_of c change \<le> MAX_QUEUE_CAPACITY"
  by (auto simp: new_capacity_of_def Let_def MIN_QUEUE_CAPACITY_def MAX_QUEUE_CAPACITY_def)

lemma copy_loop_layout:
  "n \<le> length new_buf \<Longrightarrow> i \<le> n \<Longrightarrow>
     copy_loop new_buf old_buf h c n i =
       take i new_buf @ map (\<lambda>j. old_buf ! ((h + j) mod c)) [i..<n] @ drop n new_buf"
proof (induction new_buf old_buf h c n i rule: copy_loop.induct)
  case (1 new_buf old_buf head old_capacity n i)
  show ?case
  proof (cases "i < n")
    case True
    let ?v = "old_buf ! ((head + i) mod old_capacity)"
    have ilen: "i < length new_buf" using True "1.prems" by simp
    have "copy_loop (new_buf[i := ?v]) old_buf head old_capacity n (Suc i) =
            take (Suc i) (new_buf[i := ?v])
            @ map (\<lambda>j. old_buf ! ((head + j) mod old_capacity)) [Suc i..<n]
            @ drop n (new_buf[i := ?v])"
      using "1.IH" [OF True] "1.prems" True by simp
    moreover have "take (Suc i) (new_buf[i := ?v]) = take i new_buf @ [?v]"
      using ilen by (simp add: take_Suc_conv_app_nth)
    moreover have "drop n (new_buf[i := ?v]) = drop n new_buf"
      using True by simp
    moreover have "[i..<n] = i # [Suc i..<n]"
      using True by (simp add: upt_conv_Cons)
    ultimately show ?thesis using True by (subst copy_loop.simps) simp
  next
    case False
    then have "i = n" using "1.prems" by simp
    then show ?thesis using False by (subst copy_loop.simps) simp
  qed
qed

lemma copy_loop_all:
  "n \<le> length new_buf \<Longrightarrow>
     copy_loop new_buf old_buf h c n 0 =
       map (\<lambda>j. old_buf ! ((h + j) mod c)) [0..<n] @ drop n new_buf"
  by (simp add: copy_loop_layout)

lemma relocate_layout:
  assumes "count q \<le> new_capacity" and "length buf = new_capacity"
  shows "relocate q new_capacity buf =
           q\<lparr>messages := contents q @ drop (count q) buf,
             capacity := new_capacity,
             head_idx := 0,
             tail_idx := (if count q = new_capacity \<and> 0 < new_capacity then 0 else count q)\<rparr>"
proof -
  have buf: "(if 0 < count q
              then copy_loop buf (messages q) (head_idx q) (capacity q) (count q) 0
              else buf) = contents q @ drop (count q) buf"
    using assms by (simp add: copy_loop_all contents_def)
  show ?thesis
    unfolding relocate_def Let_def buf by simp
qed

lemma adjust_sync_data:
  "adjust_sync mode old_capacity new_capacity q es = (st, q') \<Longrightarrow>
     q' = q\<lparr>empty_slots := empty_slots q'\<rparr>"
  by (auto simp: adjust_sync_def split: sync_mode_t.splits if_splits prod.splits)

lemma queue_resize_declined:
  assumes "change = 0 \<or> new_capacity_of (capacity q) change = capacity q
           \<or> new_capacity_of (capacity q) change < count q \<or> blk = None"
  shows "snd (queue_resize mode (Some q) change blk es) = Some q"
  using assms by (auto simp: queue_resize_def Let_def malloc_buffer_def)

lemma queue_resize_accepted:
  assumes "change \<noteq> 0" and "new_capacity_of (capacity q) change \<noteq> capacity q"
    and "count q \<le> new_capacity_of (capacity q) change" and "blk = Some g"
  shows "queue_resize mode (Some q) change blk es =
           apsnd Some (adjust_sync mode (capacity q) (new_capacity_of (capacity q) change)
             (relocate q (new_capacity_of (capacity q) change)
                (map g [0..<new_capacity_of (capacity q) change])) es)"
  using assms by (simp add: queue_resize_def Let_def malloc_buffer_def del: upt.simps)

lemma queue_inv_relocate:
  assumes "queue_inv q" and "count q \<le> n" and "length buf = n"
    and "MIN_QUEUE_CAPACITY \<le> n" and "n \<le> MAX_QUEUE_CAPACITY"
  shows "queue_inv (relocate q n buf)"
  using assms
  by (auto simp: relocate_layout queue_inv_def contents_def MIN_QUEUE_CAPACITY_def)

lemma contents_relocate:
  assumes "count q \<le> n" and "length buf = n"
  shows "contents (relocate q n buf) = contents q"
proof -
  have len: "length (contents q) = count q" by (simp add: contents_def)
  have "map (\<lambda>i. (contents q @ drop (count q) buf) ! (i mod n)) [0..<count q] = contents q"
  proof (rule nth_equalityI)
    show "length (map (\<lambda>i. (contents q @ drop (count q) buf) ! (i mod n)) [0..<count q])
            = length (contents q)" using len by simp
  next
    fix i assume "i < length (map (\<lambda>i. (contents q @ drop (count q) buf) ! (i mod n)) [0..<count q])"
    then have i: "i < count q" by simp
    then have "i mod n = i" using assms(1) by simp
    then show "map (\<lambda>i. (contents q @ drop (count q) buf) ! (i mod n)) [0..<count q] ! i
                 = contents q ! i"
      using i len by (simp add: nth_append)
  qed
  then show ?thesis using assms by (simp add: relocate_layout) (simp add: contents_def)
qed

section \<open>Every call keeps the invariant and the order\<close>

lemma queue_create_inv:
  assumes "queue_create initial_capacity mode cenv = Some q"
  shows "queue_inv q \<and> count q = 0"
  using assms
  by (auto simp: queue_create_def Let_def queue_inv_def malloc_buffer_def
      MIN_QUEUE_CAPACITY_def MAX_QUEUE_CAPACITY_def INITIAL_QUEUE_CAPACITY_def
      split: if_splits option.splits)

lemma contents_empty: "count q = 0 \<Longrightarrow> contents q = []"
  by (simp add: contents_def)

text \<open>What one call does to an invariant queue and to its contents.\<close>

lemma queue_add_step:
  assumes "queue_inv q" and "queue_add mode (Some q) (Some m) env = (st, qp')"
  shows "\<exists>q'. qp' = Some q' \<and> queue_inv q'
            \<and> contents q' = contents q @ (if st = Ok then [m] else [])"
proof (cases mode)
  case SYNC_MODE_SEM
  then obtain q' where r: "queue_add_sem q m (sem_events env) = (st, q')" and qp: "qp' = Some q'"
    using assms(2) by (cases "queue_add_sem q m (sem_events env)") (auto simp: queue_add_def)
  from queue_add_sem_effect [OF r] show ?thesis
    using assms(1) qp by (auto simp: queue_inv_enqueue contents_enqueue)
next
  case SYNC_MODE_CONDVAR
  then obtain q' where r: "queue_add_condvar q m (term0 env) (cond_events env) = (st, q')"
    and qp: "qp' = Some q'"
    using assms(2)
    by (cases "queue_add_condvar q m (term0 env) (cond_events env)") (auto simp: queue_add_def)
  from queue_add_condvar_effect [OF r] show ?thesis
    using assms(1) qp by (auto simp: queue_inv_enqueue contents_enqueue)
qed

lemma queue_remove_step:
  assumes "queue_inv q" and "queue_remove mode (Some q) (Some buf) env = (st, out, qp')"
  shows "\<exists>q' m. qp' = Some q' \<and> out = Some m \<and> queue_inv q'
            \<and> contents q = (if st = Ok then [m] else []) @ contents q'"
proof (cases mode)
  case SYNC_MODE_SEM
  then obtain q' m where r: "queue_remove_sem q buf (sem_events env) = (st, m, q')"
    and qp: "qp' = Some q'" "out = Some m"
    using assms(2)
    by (cases "queue_remove_sem q buf (sem_events env)") (auto simp: queue_remove_def)
  from queue_remove_sem_effect [OF r] show ?thesis
    using assms(1) qp dequeue_contents [of q] queue_inv_dequeue [of q] by auto
next
  case SYNC_MODE_CONDVAR
  then obtain q' m where r: "queue_remove_condvar q buf (term0 env) (cond_events env) = (st, m, q')"
    and qp: "qp' = Some q'" "out = Some m"
    using assms(2)
    by (cases "queue_remove_condvar q buf (term0 env) (cond_events env)")
       (auto simp: queue_remove_def)
  from queue_remove_condvar_effect [OF r] show ?thesis
    using assms(1) qp dequeue_contents [of q] queue_inv_dequeue [of q] by auto
qed

lemma queue_resize_step:
  assumes "queue_inv q" and "queue_resize mode (Some q) change blk es = (st, qp')"
  shows "\<exists>q'. qp' = Some q' \<and> queue_inv q' \<and> contents q' = contents q"
proof (cases "change = 0 \<or> new_capacity_of (capacity q) change = capacity q
              \<or> new_capacity_of (capacity q) change < count q \<or> blk = None")
  case True
  from queue_resize_declined [OF True, of mode es] assms show ?thesis by simp
next
  case False
  let ?n = "new_capacity_of (capacity q) change"
  from False obtain g where g: "blk = Some g" by auto
  have le: "count q \<le> ?n" using False by simp
  have bounds: "MIN_QUEUE_CAPACITY \<le> ?n" "?n \<le> MAX_QUEUE_CAPACITY"
    using new_capacity_of_bounds [of "capacity q" change] assms(1) by (simp_all add: queue_inv_def)
  let ?r = "relocate q ?n (map g [0..<?n])"
  obtain q' where a: "adjust_sync mode (capacity q) ?n ?r es = (st, q')" and qp: "qp' = Some q'"
    using queue_resize_accepted [of change q blk g mode es] False g le assms(2)
    by (cases "adjust_sync mode (capacity q) ?n ?r es") auto
  have q': "q' = ?r\<lparr>empty_slots := empty_slots q'\<rparr>" using a by (rule adjust_sync_data)
  have "queue_inv ?r" using assms(1) le bounds by (simp add: queue_inv_relocate)
  moreover have "contents ?r = contents q" using le by (simp add: contents_relocate)
  ultimately have "queue_inv q' \<and> contents q' = contents q"
    by (subst q', subst (2) q') simp
  then show ?thesis using qp by simp
qed

lemma run_fifo:
  assumes "queue_inv q" and "run mode (Some q) calls = (added, removed, qf)"
  shows "\<exists>q'. qf = Some q' \<and> queue_inv q' \<and> contents q @ added = removed @ contents q'"
  using assms
proof (induction calls arbitrary: q added removed)
  case Nil
  then show ?case by auto
next
  case (Cons c calls)
  show ?case
  proof (cases c)
    case (Add m env)
    obtain st qp1 where s1: "queue_add mode (Some q) (Some m) env = (st, qp1)"
      by (cases "queue_add mode (Some q) (Some m) env")
    obtain q1 where q1: "qp1 = Some q1" "queue_inv q1"
      "contents q1 = contents q @ (if st = Ok then [m] else [])"
      using queue_add_step [OF Cons.prems(1) s1] by auto
    obtain a r where rest: "run mode (Some q1) calls = (a, r, qf)"
      and ar: "added = (if st = Ok then m # a else a)" "removed = r"
      using Cons.prems(2) Add s1 q1(1)
      by (cases "run mode (Some q1) calls") (auto split: if_splits)
    from Cons.IH [OF q1(2) rest] show ?thesis using q1(3) ar by auto
  next
    case (Remove buf env)
    obtain st out qp1 where s1: "queue_remove mode (Some q) (Some buf) env = (st, out, qp1)"
      by (cases "queue_remove mode (Some q) (Some buf) env")
    obtain q1 m where q1: "qp1 = Some q1" "out = Some m" "queue_inv q1"
      "contents q = (if st = Ok then [m] else []) @ contents q1"
      using queue_remove_step [OF Cons.prems(1) s1] by auto
    obtain a r where rest: "run mode (Some q1) calls = (a, r, qf)"
      and ar: "added = a" "removed = (if st = Ok then m # r else r)"
      using Cons.prems(2) Remove s1 q1(1,2)
      by (cases "run mode (Some q1) calls") (auto split: if_splits)
    from Cons.IH [OF q1(3) rest] show ?thesis using q1(4) ar by auto
  next
    case (Resize change blk es)
    obtain st qp1 where s1: "queue_resize mode (Some q) change blk es = (st, qp1)"
      by (cases "queue_resize mode (Some q) change blk es")
    obtain q1 where q1: "qp1 = Some q1" "queue_inv q1" "contents q1 = contents q"
      using queue_resize_step [OF Cons.prems(1) s1] by auto
    have rest: "run mode (Some q1) calls = (added, removed, qf)"
      using Cons.prems(2) Resize s1 q1(1) by simp
    from Cons.IH [OF q1(2) rest] show ?thesis using q1(3) by simp
  next
    case (Semaphores a b)
    let ?q1 = "q\<lparr>empty_slots := a, full_slots := b\<rparr>"
    have inv1: "queue_inv ?q1" using Cons.prems(1) by simp
    have rest: "run mode (Some ?q1) calls = (added, removed, qf)"
      using Cons.prems(2) Semaphores by simp
    from Cons.IH [OF inv1 rest] show ?thesis by simp
  qed
qed

section \<open>Cancelled and declined calls\<close>

lemma sem_wait_retry_skips:
  "sem_wait_retry s (replicate k (Eintr, False) @ es) = sem_wait_retry s es"
  by (induction k) simp_all

lemma cond_wait_while_skips:
  "cond_wait_while True False (replicate k (Wake, False) @ es) = cond_wait_while True False es"
  by (induction k) simp_all

lemma queue_add_unchanged:
  assumes "fst (queue_add mode (Some q) (Some m) env) \<noteq> Ok"
  shows "snd (queue_add mode (Some q) (Some m) env) = Some q"
proof (cases mode)
  case SYNC_MODE_SEM
  obtain st q' where r: "queue_add_sem q m (sem_events env) = (st, q')"
    by (cases "queue_add_sem q m (sem_events env)")
  from queue_add_sem_effect [OF r] assms r SYNC_MODE_SEM show ?thesis
    by (auto simp: queue_add_def)
next
  case SYNC_MODE_CONDVAR
  obtain st q' where r: "queue_add_condvar q m (term0 env) (cond_events env) = (st, q')"
    by (cases "queue_add_condvar q m (term0 env) (cond_events env)")
  from queue_add_condvar_effect [OF r] assms r SYNC_MODE_CONDVAR show ?thesis
    by (auto simp: queue_add_def)
qed

lemma queue_remove_unchanged:
  assumes "fst (queue_remove mode (Some q) (Some buf) env) \<noteq> Ok"
  shows "snd (queue_remove mode (Some q) (Some buf) env) = (Some buf, Some q)"
proof (cases mode)
  case SYNC_MODE_SEM
  obtain st out q' where r: "queue_remove_sem q buf (sem_events env) = (st, out, q')"
    by (cases "queue_remove_sem q buf (sem_events env)")
  from queue_remove_sem_effect [OF r] assms r SYNC_MODE_SEM show ?thesis
    by (auto simp: queue_remove_def)
next
  case SYNC_MODE_CONDVAR
  obtain st out q' where r: "queue_remove_condvar q buf (term0 env) (cond_events env) = (st, out, q')"
    by (cases "queue_remove_condvar q buf (term0 env) (cond_events env)")
  from queue_remove_condvar_effect [OF r] assms r SYNC_MODE_CONDVAR show ?thesis
    by (auto simp: queue_remove_def)
qed

text \<open>The checkpoints of the semaphore strategy.\<close>

lemma add_sem_eintr_checkpoint:
  "queue_add_sem q m (replicate k (Eintr, False) @ (Eintr, True) # rest) = (Cancelled, q)"
  by (simp add: queue_add_sem_def sem_wait_retry_skips)

lemma add_sem_acquired_checkpoint:
  "0 < empty_slots q \<Longrightarrow>
     queue_add_sem q m (replicate k (Eintr, False) @ (Quiet, True) # rest) = (Cancelled, q)"
  by (simp add: queue_add_sem_def sem_wait_retry_skips sem_post_def)

lemma remove_sem_eintr_checkpoint:
  "queue_remove_sem q buf (replicate k (Eintr, False) @ (Eintr, True) # rest) = (Cancelled, buf, q)"
  by (simp add: queue_remove_sem_def sem_wait_retry_skips)

lemma remove_sem_acquired_checkpoint:
  "0 < full_slots q \<Longrightarrow>
     queue_remove_sem q buf (replicate k (Eintr, False) @ (Quiet, True) # rest) = (Cancelled, buf, q)"
  by (simp add: queue_remove_sem_def sem_wait_retry_skips sem_post_def)

text \<open>The checkpoints of the condition-variable strategy.\<close>

lemma cond_wait_while_flag: "cond_wait_while p True es = Ready True"
  by (cases "(p, True, es)" rule: cond_wait_while.cases) auto

lemma add_condvar_entry_checkpoint: "queue_add_condvar q m True es = (Cancelled, q)"
  by (simp add: queue_add_condvar_def cond_wait_while_flag)

lemma remove_condvar_entry_checkpoint: "queue_remove_condvar q buf True es = (Cancelled, buf, q)"
  by (simp add: queue_remove_condvar_def cond_wait_while_flag)

lemma add_condvar_wake_checkpoint:
  "count q = capacity q \<Longrightarrow>
     queue_add_condvar q m False (replicate k (Wake, False) @ (Wake, True) # rest) = (Cancelled, q)"
  by (simp add: queue_add_condvar_def cond_wait_while_skips cond_wait_while_flag)

lemma remove_condvar_wake_checkpoint:
  "count q = 0 \<Longrightarrow>
     queue_remove_condvar q buf False (replicate k (Wake, False) @ (Wake, True) # rest)
       = (Cancelled, buf, q)"
  by (simp add: queue_remove_condvar_def cond_wait_while_skips cond_wait_while_flag)

text \<open>queue_resize: declined calls.\<close>

lemma new_capacity_of_zero: "0 < c \<Longrightarrow> new_capacity_of c 0 = c"
  by (simp add: new_capacity_of_def MIN_QUEUE_CAPACITY_def)

lemma queue_resize_rejects:
  assumes "count q \<le> capacity q" and "new_capacity_of (capacity q) change < count q"
  shows "queue_resize mode (Some q) change blk es = (Rejected, Some q)"
proof -
  have pos: "0 < capacity q" using assms by simp
  have ne: "new_capacity_of (capacity q) change \<noteq> capacity q" using assms by simp
  then have "change \<noteq> 0" using new_capacity_of_zero [OF pos] by auto
  then show ?thesis using ne assms(2) by (simp add: queue_resize_def Let_def)
qed

lemma queue_resize_zero: "queue_resize mode (Some q) 0 blk es = (Invalid, Some q)"
  by (simp add: queue_resize_def)

lemma queue_resize_same_capacity:
  "change \<noteq> 0 \<Longrightarrow> new_capacity_of (capacity q) change = capacity q \<Longrightarrow>
     queue_resize mode (Some q) change blk es = (Ok, Some q)"
  by (simp add: queue_resize_def Let_def)

lemma queue_resize_realloc_zero: "queue_resize_realloc mode (Some q) 0 blk es = (Invalid, Some q)"
  by (simp add: queue_resize_realloc_def)

lemma queue_resize_realloc_same_capacity:
  "change \<noteq> 0 \<Longrightarrow> new_capacity_realloc (capacity q) change = capacity q \<Longrightarrow>
     queue_resize_realloc mode (Some q) change blk es = (Ok, Some q)"
  by (simp add: queue_resize_realloc_def Let_def)

section \<open>queue_resize: what an accepted call leaves, in each listing\<close>

lemma queue_resize_linearizes:
  assumes "change \<noteq> 0" and "new_capacity_of (capacity q) change \<noteq> capacity q"
    and "count q \<le> new_capacity_of (capacity q) change" and "blk = Some g"
    and "queue_resize mode (Some q) change blk es = (st, qp')"
  shows "\<exists>q'. qp' = Some q'
           \<and> messages q' = contents q
                 @ drop (count q) (map g [0..<new_capacity_of (capacity q) change])
           \<and> capacity q' = new_capacity_of (capacity q) change
           \<and> head_idx q' = 0
           \<and> tail_idx q' = (if count q = new_capacity_of (capacity q) change then 0 else count q)
           \<and> count q' = count q
           \<and> contents q' = contents q
           \<and> added_count_total q' = added_count_total q
           \<and> extracted_count_total q' = extracted_count_total q"
proof -
  let ?n = "new_capacity_of (capacity q) change"
  let ?r = "relocate q ?n (map g [0..<?n])"
  obtain q' where a: "adjust_sync mode (capacity q) ?n ?r es = (st, q')" and qp: "qp' = Some q'"
    using queue_resize_accepted [OF assms(1-4), of mode es] assms(5)
    by (cases "adjust_sync mode (capacity q) ?n ?r es") auto
  have q': "q' = ?r\<lparr>empty_slots := empty_slots q'\<rparr>" using a by (rule adjust_sync_data)
  have lay: "?r = q\<lparr>messages := contents q @ drop (count q) (map g [0..<?n]),
             capacity := ?n, head_idx := 0,
             tail_idx := (if count q = ?n \<and> 0 < ?n then 0 else count q)\<rparr>"
    using assms(3) by (simp add: relocate_layout del: upt.simps)
  have c: "contents ?r = contents q" using assms(3) by (simp add: contents_relocate)
  have c': "contents q' = contents q" by (subst q') (simp add: c)
  have f: "messages q' = contents q @ drop (count q) (map g [0..<?n])"
    "capacity q' = ?n" "head_idx q' = 0"
    "tail_idx q' = (if count q = ?n then 0 else count q)"
    "count q' = count q" "added_count_total q' = added_count_total q"
    "extracted_count_total q' = extracted_count_total q"
    by (subst q', simp add: lay del: upt.simps)+
  show ?thesis using qp c' f by simp
qed

lemma reclaim_slots_realloc_never_cancelled:
  "fst (reclaim_slots_realloc k s es) \<noteq> Cancelled"
  by (induction k s es rule: reclaim_slots_realloc.induct) auto

lemma queue_resize_realloc_never_cancelled:
  "fst (queue_resize_realloc mode qp change blk es) \<noteq> Cancelled"
proof -
  have "fst (adjust_sync_realloc mode a b q es) \<noteq> Cancelled" for a b and q :: "'a queue_t"
    using reclaim_slots_realloc_never_cancelled [of "a - b" "empty_slots q" es]
    by (auto simp: adjust_sync_realloc_def split: sync_mode_t.splits prod.splits)
  then show ?thesis
    by (auto simp: queue_resize_realloc_def Let_def split: option.splits)
qed

lemma reclaim_slots_cancelled:
  "reclaim_slots (Suc k) s (replicate j (Eintr, False) @ (Eintr, True) # rest) = (Cancelled, s)"
  by (induction j) simp_all

lemma resize_keeps_wrapped_items:
  "queue_resize SYNC_MODE_CONDVAR (Some five_wrapped) (- 2) (Some junk) []
     = (Ok, Some three_slots_full)
   \<and> contents three_slots_full = [''A'', ''B'', ''C'']"
  by code_simp

lemma shrink_then_dequeue_example:
  "fst (queue_resize SYNC_MODE_SEM (Some five_abc) (- 2) (Some junk)
          [(Quiet, False), (Quiet, False)]) = Ok
   \<and> fst (snd (run SYNC_MODE_SEM (Some five_abc)
        [Resize (- 2) (Some junk) [(Quiet, False), (Quiet, False)],
         Remove ''?'' calm, Remove ''?'' calm, Remove ''?'' calm])) = [''A'', ''B'', ''C'']"
  by code_simp

lemma queue_resize_cancelled_example:
  "queue_resize SYNC_MODE_SEM (Some five_abc_in_flight) (- 2) (Some junk) signal_during_shrink
     = (Cancelled, Some (five_abc\<lparr>messages := [''A'', ''B'', ''C''], capacity := 3,
                                  tail_idx := 0, empty_slots := 0\<rparr>))"
  by code_simp

text \<open>
  The second listing keeps the invariant: every state reached from \<^verbatim>\<open>queue_create\<close>
  by calls of \<^verbatim>\<open>queue_add\<close>, \<^verbatim>\<open>queue_remove\<close> and the \<^verbatim>\<open>queue_resize\<close> of lines
  796--921 satisfies it.
\<close>

lemma second_listing_keeps_invariant:
  assumes "queue_create initial_capacity mode cenv = Some q0"
    and "run mode (Some q0) calls = (added, removed, qf)"
  shows "\<exists>q. qf = Some q \<and> spec_invariant q"
proof -
  have "queue_inv q0" using queue_create_inv [OF assms(1)] by simp
  then obtain q where "qf = Some q" "queue_inv q"
    using run_fifo [OF _ assms(2)] by auto
  then show ?thesis by (auto intro: queue_inv_imp_spec_invariant)
qed

lemma second_listing_keeps_invariant_example:
  "queue_create 5 SYNC_MODE_CONDVAR fresh_env = Some five_slots
   \<and> run SYNC_MODE_CONDVAR (Some five_slots) wrap_calls
       = ([''X'', ''Y'', ''Z'', ''A'', ''B'', ''C''], [''X'', ''Y'', ''Z''], Some three_slots_full)
   \<and> spec_invariant three_slots_full"
proof -
  have c: "queue_create 5 SYNC_MODE_CONDVAR fresh_env = Some five_slots"
    by code_simp
  have r: "run SYNC_MODE_CONDVAR (Some five_slots) wrap_calls
       = ([''X'', ''Y'', ''Z'', ''A'', ''B'', ''C''], [''X'', ''Y'', ''Z''], Some three_slots_full)"
    by code_simp
  from second_listing_keeps_invariant [OF c r] show ?thesis using c r by simp
qed

section \<open>The claims\<close>

text \<open>
  C1 (FIFO). In either strategy, for a queue made by \<^verbatim>\<open>queue_create\<close> and any sequence
  of calls on it (of \<^verbatim>\<open>queue_add\<close> and \<^verbatim>\<open>queue_remove\<close>, and also of the
  \<^verbatim>\<open>queue_resize\<close> of the second listing, whatever happens to the semaphores in
  between), the messages returned by the successful calls of \<^verbatim>\<open>queue_remove\<close> are, in
  the same order, the messages passed to the successful calls of \<^verbatim>\<open>queue_add\<close>: the
  removed sequence is the added sequence up to the items the queue still holds, and it
  is the whole added sequence once the queue is empty.
\<close>

theorem fifo_order:
  assumes "queue_create initial_capacity mode cenv = Some q0"
    and "run mode (Some q0) calls = (added, removed, qf)"
  shows "removed = take (length removed) added
         \<and> (\<exists>q. qf = Some q \<and> added = removed @ contents q
                \<and> (count q = 0 \<longrightarrow> removed = added))"
proof -
  have inv: "queue_inv q0" and empty: "contents q0 = []"
    using queue_create_inv [OF assms(1)] by (simp_all add: contents_empty)
  obtain q where q: "qf = Some q" "contents q0 @ added = removed @ contents q"
    using run_fifo [OF inv assms(2)] by auto
  then have eq: "added = removed @ contents q" using empty by simp
  then have "removed = take (length removed) added" by simp
  moreover have "count q = 0 \<longrightarrow> removed = added" using eq by (simp add: contents_empty)
  ultimately show ?thesis using q(1) eq by simp
qed

theorem fifo_order_witness:
  "queue_create 2 SYNC_MODE_SEM fresh_env = Some two_slots
   \<and> run SYNC_MODE_SEM (Some two_slots) abc_calls
       = ([''A'', ''B'', ''C''], [''A'', ''B'', ''C''], Some two_slots_drained)
   \<and> count two_slots_drained = 0
   \<and> [''A'', ''B'', ''C''] = take (length [''A'', ''B'', ''C'']) [''A'', ''B'', ''C'']"
proof -
  have c: "queue_create 2 SYNC_MODE_SEM fresh_env = Some two_slots"
    by code_simp
  have r: "run SYNC_MODE_SEM (Some two_slots) abc_calls
       = ([''A'', ''B'', ''C''], [''A'', ''B'', ''C''], Some two_slots_drained)"
    by code_simp
  from fifo_order [OF c r] show ?thesis using c r by (simp add: two_slots_drained_def)
qed

text \<open>
  C2 (invariant) fails on the \<^verbatim>\<open>queue_resize\<close> of the first listing, lines 291--378.
  The queue \<open>five_wrapped\<close> is reached from a new queue of five slots and satisfies the
  invariant. A change of -1 is accepted and returns 0; the buffer loses its last slot
  and both indices are reduced modulo 4, which leaves them at 3 and 1 with three items
  counted: \<open>(tail_idx - head_idx) mod capacity\<close> is 2, not 3, and the queue is not full.
  The operations of the second listing keep the invariant in every reachable state
  (\<open>second_listing_keeps_invariant\<close>).
\<close>

theorem realloc_resize_breaks_invariant:
  "snd (snd (run SYNC_MODE_CONDVAR (Some five_slots) wrap_abc_calls)) = Some five_wrapped
   \<and> spec_invariant five_wrapped
   \<and> queue_resize_realloc SYNC_MODE_CONDVAR (Some five_wrapped) (- 1) (Some junk) []
       = (Ok, Some four_realloc)
   \<and> (int (tail_idx four_realloc) - int (head_idx four_realloc))
         mod int (capacity four_realloc) = 2
   \<and> count four_realloc = 3 \<and> capacity four_realloc = 4
   \<and> \<not> spec_invariant four_realloc"
proof -
  have r: "snd (snd (run SYNC_MODE_CONDVAR (Some five_slots) wrap_abc_calls))
      = Some five_wrapped"
    by code_simp
  have z: "queue_resize_realloc SYNC_MODE_CONDVAR (Some five_wrapped) (- 1) (Some junk) []
       = (Ok, Some four_realloc)"
    by code_simp
  have i: "spec_invariant five_wrapped"
    by (simp add: spec_invariant_def five_wrapped_def)
  have f: "(int (tail_idx four_realloc) - int (head_idx four_realloc))
         mod int (capacity four_realloc) = 2"
    "count four_realloc = 3" "capacity four_realloc = 4"
    by (simp_all add: four_realloc_def)
  have n: "\<not> spec_invariant four_realloc"
    using f by (simp add: spec_invariant_def)
  show ?thesis using r z i f n by simp
qed

text \<open>
  C3 (cancellation). A call of \<^verbatim>\<open>queue_add\<close> or \<^verbatim>\<open>queue_remove\<close> that returns
  because it read the termination flag as set returns -1 and leaves the queue, both
  semaphores included, and the caller's buffer exactly as they were: a permit taken by
  \<^verbatim>\<open>sem_wait\<close> has been posted back. And the call does return so at each checkpoint:
  in the semaphore strategy when an interrupted \<^verbatim>\<open>sem_wait\<close> finds the flag set and
  when the check after a successful \<^verbatim>\<open>sem_wait\<close> finds it set, after any number of
  interruptions with the flag clear; in the condition-variable strategy when the flag is
  set on entry and when it is set after a wake-up, after any number of wake-ups with the
  queue still full (or empty) and the flag clear.
\<close>

theorem cancelled_call_undone:
  "ret_code Cancelled = Some (- 1)
   \<and> (fst (queue_add mode (Some q) (Some m) env) = Cancelled
        \<longrightarrow> queue_add mode (Some q) (Some m) env = (Cancelled, Some q))
   \<and> (fst (queue_remove mode (Some q) (Some buf) env) = Cancelled
        \<longrightarrow> queue_remove mode (Some q) (Some buf) env = (Cancelled, Some buf, Some q))
   \<and> (sem_events env = replicate k (Eintr, False) @ (Eintr, True) # rest
        \<longrightarrow> queue_add SYNC_MODE_SEM (Some q) (Some m) env = (Cancelled, Some q)
          \<and> queue_remove SYNC_MODE_SEM (Some q) (Some buf) env
              = (Cancelled, Some buf, Some q))
   \<and> (sem_events env = replicate k (Eintr, False) @ (Quiet, True) # rest
        \<longrightarrow> (0 < empty_slots q
              \<longrightarrow> queue_add SYNC_MODE_SEM (Some q) (Some m) env = (Cancelled, Some q))
          \<and> (0 < full_slots q
              \<longrightarrow> queue_remove SYNC_MODE_SEM (Some q) (Some buf) env
                    = (Cancelled, Some buf, Some q)))
   \<and> (term0 env
        \<longrightarrow> queue_add SYNC_MODE_CONDVAR (Some q) (Some m) env = (Cancelled, Some q)
          \<and> queue_remove SYNC_MODE_CONDVAR (Some q) (Some buf) env
              = (Cancelled, Some buf, Some q))
   \<and> (\<not> term0 env \<and> cond_events env = replicate k (Wake, False) @ (Wake, True) # rest'
        \<longrightarrow> (count q = capacity q
              \<longrightarrow> queue_add SYNC_MODE_CONDVAR (Some q) (Some m) env = (Cancelled, Some q))
          \<and> (count q = 0
              \<longrightarrow> queue_remove SYNC_MODE_CONDVAR (Some q) (Some buf) env
                    = (Cancelled, Some buf, Some q)))"
proof -
  have a: "fst (queue_add mode (Some q) (Some m) env) = Cancelled
        \<longrightarrow> queue_add mode (Some q) (Some m) env = (Cancelled, Some q)"
    using queue_add_unchanged [of mode q m env]
    by (cases "queue_add mode (Some q) (Some m) env") auto
  have r: "fst (queue_remove mode (Some q) (Some buf) env) = Cancelled
        \<longrightarrow> queue_remove mode (Some q) (Some buf) env = (Cancelled, Some buf, Some q)"
    using queue_remove_unchanged [of mode q buf env]
    by (cases "queue_remove mode (Some q) (Some buf) env") auto
  have s1: "sem_events env = replicate k (Eintr, False) @ (Eintr, True) # rest
        \<longrightarrow> queue_add SYNC_MODE_SEM (Some q) (Some m) env = (Cancelled, Some q)
          \<and> queue_remove SYNC_MODE_SEM (Some q) (Some buf) env
              = (Cancelled, Some buf, Some q)"
    by (simp add: queue_add_def queue_remove_def add_sem_eintr_checkpoint
        remove_sem_eintr_checkpoint)
  have s2: "sem_events env = replicate k (Eintr, False) @ (Quiet, True) # rest
        \<longrightarrow> (0 < empty_slots q
              \<longrightarrow> queue_add SYNC_MODE_SEM (Some q) (Some m) env = (Cancelled, Some q))
          \<and> (0 < full_slots q
              \<longrightarrow> queue_remove SYNC_MODE_SEM (Some q) (Some buf) env
                    = (Cancelled, Some buf, Some q))"
    by (simp add: queue_add_def queue_remove_def add_sem_acquired_checkpoint
        remove_sem_acquired_checkpoint)
  have c1: "term0 env
        \<longrightarrow> queue_add SYNC_MODE_CONDVAR (Some q) (Some m) env = (Cancelled, Some q)
          \<and> queue_remove SYNC_MODE_CONDVAR (Some q) (Some buf) env
              = (Cancelled, Some buf, Some q)"
    by (simp add: queue_add_def queue_remove_def add_condvar_entry_checkpoint
        remove_condvar_entry_checkpoint)
  have c2: "\<not> term0 env \<and> cond_events env = replicate k (Wake, False) @ (Wake, True) # rest'
        \<longrightarrow> (count q = capacity q
              \<longrightarrow> queue_add SYNC_MODE_CONDVAR (Some q) (Some m) env = (Cancelled, Some q))
          \<and> (count q = 0
              \<longrightarrow> queue_remove SYNC_MODE_CONDVAR (Some q) (Some buf) env
                    = (Cancelled, Some buf, Some q))"
    by (simp add: queue_add_def queue_remove_def add_condvar_wake_checkpoint
        remove_condvar_wake_checkpoint)
  show ?thesis using a r s1 s2 c1 c2 by simp
qed

theorem cancelled_call_undone_witness:
  "sem_events set_after_permit = replicate 1 (Eintr, False) @ (Quiet, True) # []
   \<and> 0 < empty_slots one_of_two \<and> 0 < full_slots one_of_two
   \<and> queue_add SYNC_MODE_SEM (Some one_of_two) (Some ''B'') set_after_permit
       = (Cancelled, Some one_of_two)
   \<and> queue_remove SYNC_MODE_SEM (Some one_of_two) (Some ''?'') set_after_permit
       = (Cancelled, Some ''?'', Some one_of_two)
   \<and> sem_events set_at_signal = replicate 0 (Eintr, False) @ (Eintr, True) # []
   \<and> term0 set_at_signal
   \<and> queue_add SYNC_MODE_SEM (Some one_of_two) (Some ''B'') set_at_signal
       = (Cancelled, Some one_of_two)
   \<and> queue_remove SYNC_MODE_CONDVAR (Some one_of_two) (Some ''?'') set_at_signal
       = (Cancelled, Some ''?'', Some one_of_two)
   \<and> \<not> term0 set_at_wake
   \<and> cond_events set_at_wake = replicate 0 (Wake, False) @ (Wake, True) # []
   \<and> count three_slots_full = capacity three_slots_full \<and> count two_slots = 0
   \<and> queue_add SYNC_MODE_CONDVAR (Some three_slots_full) (Some ''D'') set_at_wake
       = (Cancelled, Some three_slots_full)
   \<and> queue_remove SYNC_MODE_CONDVAR (Some two_slots) (Some ''?'') set_at_wake
       = (Cancelled, Some ''?'', Some two_slots)"
proof -
  have h1: "sem_events set_after_permit = replicate 1 (Eintr, False) @ (Quiet, True) # []"
    by (simp add: set_after_permit_def)
  have h2: "0 < empty_slots one_of_two" "0 < full_slots one_of_two"
    by (simp_all add: one_of_two_def)
  have h3: "sem_events set_at_signal = replicate 0 (Eintr, False) @ (Eintr, True) # []"
    "term0 set_at_signal"
    by (simp_all add: set_at_signal_def)
  have h4: "\<not> term0 set_at_wake"
    "cond_events set_at_wake = replicate 0 (Wake, False) @ (Wake, True) # []"
    by (simp_all add: set_at_wake_def)
  have h5: "count three_slots_full = capacity three_slots_full" "count two_slots = 0"
    by (simp_all add: three_slots_full_def two_slots_def)
  have r1: "queue_add SYNC_MODE_SEM (Some one_of_two) (Some ''B'') set_after_permit
       = (Cancelled, Some one_of_two)
     \<and> queue_remove SYNC_MODE_SEM (Some one_of_two) (Some ''?'') set_after_permit
       = (Cancelled, Some ''?'', Some one_of_two)"
    using cancelled_call_undone [where mode = SYNC_MODE_SEM and q = one_of_two and m = "''B''"
      and env = set_after_permit and buf = "''?''" and k = 1 and rest = "[]" and rest' = "[]"]
      h1 h2 by blast
  have r2: "queue_add SYNC_MODE_SEM (Some one_of_two) (Some ''B'') set_at_signal
       = (Cancelled, Some one_of_two)"
    using cancelled_call_undone [where mode = SYNC_MODE_SEM and q = one_of_two and m = "''B''"
      and env = set_at_signal and buf = "''?''" and k = 0 and rest = "[]" and rest' = "[]"]
      h3 by blast
  have r3: "queue_remove SYNC_MODE_CONDVAR (Some one_of_two) (Some ''?'') set_at_signal
       = (Cancelled, Some ''?'', Some one_of_two)"
    using cancelled_call_undone [where mode = SYNC_MODE_CONDVAR and q = one_of_two and m = "''B''"
      and env = set_at_signal and buf = "''?''" and k = 0 and rest = "[]" and rest' = "[]"]
      h3 by blast
  have r4: "queue_add SYNC_MODE_CONDVAR (Some three_slots_full) (Some ''D'') set_at_wake
       = (Cancelled, Some three_slots_full)"
    using cancelled_call_undone [where mode = SYNC_MODE_CONDVAR and q = three_slots_full
      and m = "''D''" and env = set_at_wake and buf = "''?''" and k = 0 and rest = "[]"
      and rest' = "[]"] h4 h5 by blast
  have r5: "queue_remove SYNC_MODE_CONDVAR (Some two_slots) (Some ''?'') set_at_wake
       = (Cancelled, Some ''?'', Some two_slots)"
    using cancelled_call_undone [where mode = SYNC_MODE_CONDVAR and q = two_slots and m = "''D''"
      and env = set_at_wake and buf = "''?''" and k = 0 and rest = "[]" and rest' = "[]"]
      h4 h5 by blast
  show ?thesis using h1 h2 h3 h4 h5 r1 r2 r3 r4 r5 by blast
qed

text \<open>
  C4 (resize keeps the order) fails on the \<^verbatim>\<open>queue_resize\<close> of the first listing,
  lines 291--378. The queue \<open>five_wrapped\<close> is reached from a new queue of five slots and
  holds \<open>A, B, C\<close> in the slots 3, 4, 0. A change of -2 is accepted and returns 0, but
  the buffer is cut to its first three slots, \<^verbatim>\<open>head_idx\<close> becomes 0 and
  \<^verbatim>\<open>tail_idx\<close> stays 1: the queue now holds \<open>C, Y, Z\<close>, so the next calls of
  \<^verbatim>\<open>queue_remove\<close> return \<open>C\<close> and two items that had been removed before, and
  \<open>A\<close> and \<open>B\<close> are lost. The second listing keeps \<open>A, B, C\<close>
  (\<open>resize_keeps_wrapped_items\<close>, and \<open>queue_resize_linearizes\<close> for every accepted call).
\<close>

theorem realloc_resize_loses_items:
  "snd (snd (run SYNC_MODE_CONDVAR (Some five_slots) wrap_abc_calls)) = Some five_wrapped
   \<and> contents five_wrapped = [''A'', ''B'', ''C'']
   \<and> queue_resize_realloc SYNC_MODE_CONDVAR (Some five_wrapped) (- 2) (Some junk) []
       = (Ok, Some three_realloc)
   \<and> contents three_realloc = [''C'', ''Y'', ''Z'']
   \<and> fst (dequeue three_realloc) = ''C''"
  by code_simp

text \<open>
  C5 (shrink rejection). On a queue with \<open>count \<le> capacity\<close>, a call of
  \<^verbatim>\<open>queue_resize\<close> whose clamped new capacity is below the item count returns -1 and
  changes nothing: capacity, count, both indices, the buffer, both totals and both
  semaphores are as before. With capacity 5 and count 3, a change of -3 is such a call.
\<close>

theorem shrink_below_count_rejected:
  assumes "count q \<le> capacity q"
    and "new_capacity_of (capacity q) change < count q"
  shows "queue_resize mode (Some q) change blk es = (Rejected, Some q)
         \<and> ret_code Rejected = Some (- 1)"
  using queue_resize_rejects [OF assms] by simp

theorem shrink_below_count_rejected_witness:
  "count five_abc \<le> capacity five_abc
   \<and> new_capacity_of (capacity five_abc) (- 3) = 2 \<and> 2 < count five_abc
   \<and> queue_resize SYNC_MODE_SEM (Some five_abc) (- 3) (Some junk) [] = (Rejected, Some five_abc)
   \<and> capacity five_abc = 5 \<and> count five_abc = 3"
proof -
  have h1: "count five_abc \<le> capacity five_abc" by (simp add: five_abc_def)
  have n: "new_capacity_of (capacity five_abc) (- 3) = 2"
    by (simp add: five_abc_def new_capacity_of_def MIN_QUEUE_CAPACITY_def)
  have h2: "new_capacity_of (capacity five_abc) (- 3) < count five_abc"
    using n by (simp add: five_abc_def)
  from shrink_below_count_rejected [OF h1 h2, of SYNC_MODE_SEM "Some junk" "[]"]
  show ?thesis using h1 n by (simp add: five_abc_def)
qed

text \<open>
  C6 (no-op resize), as the claim states it, fails for a change of 0: the call returns -1.
\<close>

theorem resize_zero_counterexample:
  "ret_code (fst (queue_resize SYNC_MODE_SEM (Some five_abc) 0 None [])) = Some (- 1)
   \<and> ret_code (fst (queue_resize_realloc SYNC_MODE_SEM (Some five_abc) 0 None [])) = Some (- 1)"
  by (simp add: queue_resize_def queue_resize_realloc_def)

text \<open>
  C6 as amended. Both listings of \<^verbatim>\<open>queue_resize\<close> return -1 for a change of 0 and
  return 0 for a change other than 0 whose clamped new capacity is the current capacity;
  in both cases the queue is left exactly as it was.
\<close>

theorem resize_without_effect:
  "ret_code Invalid = Some (- 1) \<and> ret_code Ok = Some 0
   \<and> (change = 0
        \<longrightarrow> queue_resize mode (Some q) change blk es = (Invalid, Some q)
          \<and> queue_resize_realloc mode (Some q) change blk es = (Invalid, Some q))
   \<and> (change \<noteq> 0 \<and> new_capacity_of (capacity q) change = capacity q
        \<longrightarrow> queue_resize mode (Some q) change blk es = (Ok, Some q))
   \<and> (change \<noteq> 0 \<and> new_capacity_realloc (capacity q) change = capacity q
        \<longrightarrow> queue_resize_realloc mode (Some q) change blk es = (Ok, Some q))"
  by (simp add: queue_resize_zero queue_resize_realloc_zero queue_resize_same_capacity
      queue_resize_realloc_same_capacity)

theorem resize_without_effect_witness:
  "queue_resize SYNC_MODE_SEM (Some five_abc) 0 (Some junk) [] = (Invalid, Some five_abc)
   \<and> queue_resize_realloc SYNC_MODE_SEM (Some five_abc) 0 (Some junk) [] = (Invalid, Some five_abc)
   \<and> (1::int) \<noteq> 0 \<and> new_capacity_of (capacity hundred_slots) 1 = capacity hundred_slots
   \<and> new_capacity_realloc (capacity hundred_slots) 1 = capacity hundred_slots
   \<and> queue_resize SYNC_MODE_SEM (Some hundred_slots) 1 (Some junk) [] = (Ok, Some hundred_slots)
   \<and> queue_resize_realloc SYNC_MODE_SEM (Some hundred_slots) 1 (Some junk) []
       = (Ok, Some hundred_slots)"
proof -
  have n: "new_capacity_of (capacity hundred_slots) 1 = capacity hundred_slots"
    by (simp add: hundred_slots_def new_capacity_of_def MAX_QUEUE_CAPACITY_def)
  have n': "new_capacity_realloc (capacity hundred_slots) 1 = capacity hundred_slots"
    by (simp add: hundred_slots_def new_capacity_realloc_def MAX_QUEUE_CAPACITY_def)
  show ?thesis
    using resize_without_effect [of 0 SYNC_MODE_SEM five_abc "Some junk" "[]"]
      resize_without_effect [of 1 SYNC_MODE_SEM hundred_slots "Some junk" "[]"] n n'
    by simp
qed

text \<open>
  C7 (the shrink wait can be cancelled) fails on the \<^verbatim>\<open>queue_resize\<close> of the first
  listing: at line 360 an interrupted \<^verbatim>\<open>sem_wait\<close> is retried whether the
  termination flag is set or not. With one permit held by a producer, a shrink by two
  slots takes back one permit and then waits; every interruption with the flag set
  leaves it waiting, and it does not return. The second listing returns -1 on the first
  such interruption.
\<close>

theorem realloc_resize_waits_through_termination:
  "fst (queue_resize_realloc SYNC_MODE_SEM (Some five_abc_in_flight) (- 2) (Some junk)
          signal_during_shrink) = Waiting
   \<and> ret_code Waiting = None
   \<and> fst (queue_resize SYNC_MODE_SEM (Some five_abc_in_flight) (- 2) (Some junk)
          signal_during_shrink) = Cancelled
   \<and> ret_code Cancelled = Some (- 1)"
  by code_simp

text \<open>
  C8 (the hash is the rolling hash \<open>h' = h*33 + h + byte\<close>), as the claim states it,
  fails: for the message of type 1 and size 0 the code returns 33 and the formula gives 34.
\<close>

theorem spec_hash_counterexample:
  "calculate_message_hash empty_message = 33 \<and> spec_hash empty_message = 34
   \<and> calculate_message_hash empty_message \<noteq> spec_hash empty_message"
  by (simp add: empty_message_def calculate_message_hash_def hash_round_def hash_loop.simps
      spec_hash_def hashed_bytes_def spec_round_def)

text \<open>
  C8 as amended. For every message, \<^verbatim>\<open>calculate_message_hash\<close> is the rolling hash
  \<open>h' = h*33 + byte\<close> (the code's \<^verbatim>\<open>(h << 5) + h + byte\<close>), seeded at 0, folded over
  the type byte, the size byte and the first \<open>size\<close> payload bytes in order, truncated
  to 16 bits; the hash field is not read.
\<close>

theorem hash_is_times33:
  assumes "length (data msg) = MAX_DATA_SIZE"
  shows "calculate_message_hash msg = times33_hash msg"
proof -
  let ?n = "unat (size_f msg)"
  have "?n < 2 ^ 8" using unsigned_less [of "size_f msg", where 'a = nat] by simp
  then have le: "?n \<le> length (data msg)" using assms by (simp add: MAX_DATA_SIZE_def)
  have seed: "hash_round (hash_round 0 (type msg)) (size_f msg)
      = of_nat (times33_round (times33_round 0 (unat (type msg))) ?n)"
    using hash_round_times33 [of 0 "type msg"]
      hash_round_times33 [of "times33_round 0 (unat (type msg))" "size_f msg"] by simp
  have "calculate_message_hash msg
      = foldl hash_round (hash_round (hash_round 0 (type msg)) (size_f msg))
          (take ?n (data msg))"
    using hash_loop_foldl [OF le, of 0] by (simp add: calculate_message_hash_def)
  also have "\<dots> = of_nat (foldl times33_round
        (times33_round (times33_round 0 (unat (type msg))) ?n) (map unat (take ?n (data msg))))"
    by (simp only: seed foldl_hash_round)
  also have "\<dots> = times33_hash msg"
    by (simp add: times33_hash_def hashed_bytes_def)
  finally show ?thesis .
qed

theorem hash_is_times33_witness:
  "length (data short_message) = MAX_DATA_SIZE
   \<and> calculate_message_hash short_message = times33_hash short_message
   \<and> times33_hash short_message = 38355"
proof -
  have l: "length (data short_message) = MAX_DATA_SIZE"
    by (simp add: short_message_def MAX_DATA_SIZE_def)
  have v: "times33_hash short_message = 38355"
    by (simp add: times33_hash_def hashed_bytes_def short_message_def times33_round_def)
  from hash_is_times33 [OF l] show ?thesis using l v by simp
qed

text \<open>
  C9 (what the hash depends on). Two messages with the same type, the same size and the
  same first \<open>size\<close> payload bytes have the same hash, whatever their hash fields and
  their other payload bytes hold. And in every run from \<^verbatim>\<open>queue_create\<close> in which each
  message added was built by a producer, on whatever its stack held, each message
  removed passes the consumer's check.
\<close>

theorem hash_reads_sized_prefix_only:
  "(type m1 = type m2 \<and> size_f m1 = size_f m2
      \<and> (\<forall>j < unat (size_f m1). data m1 ! j = data m2 ! j)
     \<longrightarrow> calculate_message_hash m1 = calculate_message_hash m2)
   \<and> (queue_create initial_capacity mode cenv = Some q0
      \<and> run mode (Some q0) calls = (added, removed, qf)
      \<and> (\<forall>m \<in> set added. \<exists>raw t s rnd. m = producer_message raw t s rnd)
     \<longrightarrow> (\<forall>m \<in> set removed. consumer_hash_ok m))"
proof -
  have a: "type m1 = type m2 \<and> size_f m1 = size_f m2
      \<and> (\<forall>j < unat (size_f m1). data m1 ! j = data m2 ! j)
     \<longrightarrow> calculate_message_hash m1 = calculate_message_hash m2"
    using calculate_message_hash_agree [of m1 m2] by blast
  have b: "\<forall>m \<in> set removed. consumer_hash_ok m"
    if c: "queue_create initial_capacity mode cenv = Some q0"
      and r: "run mode (Some q0) calls = (added, removed, qf)"
      and p: "\<forall>m \<in> set added. \<exists>raw t s rnd. m = producer_message raw t s rnd"
  proof -
    have inv: "queue_inv q0" and empty: "contents q0 = []"
      using queue_create_inv [OF c] by (simp_all add: contents_empty)
    obtain q where "contents q0 @ added = removed @ contents q"
      using run_fifo [OF inv r] by auto
    then have sub: "set removed \<subseteq> set added" using empty by auto
    show ?thesis
    proof
      fix m assume "m \<in> set removed"
      then have "m \<in> set added" using sub by auto
      then obtain raw t s rnd where "m = producer_message raw t s rnd" using p by blast
      then show "consumer_hash_ok m" by (simp add: consumer_accepts_producer_message)
    qed
  qed
  show ?thesis using a b by blast
qed

theorem hash_reads_sized_prefix_only_witness:
  "type short_message = type short_message_other
   \<and> size_f short_message = size_f short_message_other
   \<and> unat (size_f short_message) = 2
   \<and> data short_message ! 0 = data short_message_other ! 0
   \<and> data short_message ! 1 = data short_message_other ! 1
   \<and> hash short_message \<noteq> hash short_message_other
   \<and> data short_message ! 2 \<noteq> data short_message_other ! 2
   \<and> calculate_message_hash short_message = calculate_message_hash short_message_other
   \<and> produced = producer_message stack_garbage 1 2 draws
   \<and> queue_create 1 SYNC_MODE_SEM message_env = Some one_slot
   \<and> run SYNC_MODE_SEM (Some one_slot) [Add produced calm, Remove stack_garbage calm]
       = ([produced], [produced], Some one_slot_after)
   \<and> consumer_hash_ok produced"
proof -
  have f: "type short_message = type short_message_other"
    "size_f short_message = size_f short_message_other"
    "unat (size_f short_message) = 2"
    "data short_message ! 0 = data short_message_other ! 0"
    "data short_message ! 1 = data short_message_other ! 1"
    "hash short_message \<noteq> hash short_message_other"
    "data short_message ! 2 \<noteq> data short_message_other ! 2"
    by (simp_all add: short_message_def short_message_other_def)
  have agree: "\<forall>j < unat (size_f short_message).
      data short_message ! j = data short_message_other ! j"
    using f(3-5) by (auto simp: less_Suc_eq numeral_2_eq_2)
  have p: "produced = producer_message stack_garbage 1 2 draws"
    by code_simp
  have c: "queue_create 1 SYNC_MODE_SEM message_env = Some one_slot"
    by code_simp
  have r: "run SYNC_MODE_SEM (Some one_slot) [Add produced calm, Remove stack_garbage calm]
       = ([produced], [produced], Some one_slot_after)"
    by code_simp
  have made: "\<forall>m \<in> set [produced]. \<exists>raw t s rnd. m = producer_message raw t s rnd"
    using p by auto
  note t = hash_reads_sized_prefix_only [where ?m1.0 = short_message
      and ?m2.0 = short_message_other and initial_capacity = 1 and mode = SYNC_MODE_SEM
      and cenv = message_env and ?q0.0 = one_slot
      and calls = "[Add produced calm, Remove stack_garbage calm]"
      and added = "[produced]" and removed = "[produced]" and qf = "Some one_slot_after"]
  have h: "calculate_message_hash short_message = calculate_message_hash short_message_other"
    using t f(1,2) agree by blast
  have k: "consumer_hash_ok produced"
    using t c r made by simp
  show ?thesis using f p c r h k by simp
qed

text \<open>
  C10 (NULL pointers). With a \<^verbatim>\<open>NULL\<close> queue, and for \<^verbatim>\<open>queue_add\<close> and
  \<^verbatim>\<open>queue_remove\<close> also with a \<^verbatim>\<open>NULL\<close> message, the calls return at their first
  guard: \<^verbatim>\<open>queue_add\<close>, \<^verbatim>\<open>queue_remove\<close> and \<^verbatim>\<open>queue_resize\<close> return -1 and
  leave queue and buffer alone, the four getters return 0, and \<^verbatim>\<open>queue_destroy\<close>
  makes no library call.
\<close>

theorem null_pointers_tolerated:
  "queue_add mode None msg env = (Invalid, None)
   \<and> queue_add mode q None env = (Invalid, q)
   \<and> queue_remove mode None msg env = (Invalid, msg, None)
   \<and> queue_remove mode q None env = (Invalid, None, q)
   \<and> queue_resize mode None change blk es = (Invalid, None)
   \<and> ret_code Invalid = Some (- 1)
   \<and> queue_get_count None lock_ok = 0
   \<and> queue_get_capacity None lock_ok = 0
   \<and> queue_get_added_total None lock_ok = 0
   \<and> queue_get_extracted_total None lock_ok = 0
   \<and> queue_destroy None mode = []"
  by (cases q)
     (simp_all add: queue_add_def queue_remove_def queue_resize_def queue_get_count_def
       queue_get_capacity_def queue_get_added_total_def queue_get_extracted_total_def
       queue_destroy_def)

end
